theory Spec2Isabelle
  imports Complex_Main "HOL-Library.Sublist" "HOL-Library.Log_Nat"
begin

text \<open>
  A model of the core of the darell command-line agent: the resolution of paths within
  the workspace root and the tool adapters built on it (\<^verbatim>\<open>src/core/tools.ts\<close>), the usage
  and cost accounting (\<^verbatim>\<open>pricing.ts\<close>) and the orchestrator \<^verbatim>\<open>runAgent\<close>. Definitions come
  first, each next to the source it follows; the properties proved of them come after.
\<close>

section \<open>Paths (node:path, POSIX flavour)\<close>

text \<open>
  The tool layer (\<^verbatim>\<open>src/core/tools.ts\<close>) resolves every path with \<^verbatim>\<open>path.resolve\<close>,
  \<^verbatim>\<open>path.join\<close> and \<^verbatim>\<open>path.sep\<close> of Node's POSIX implementation. These library
  functions are modelled on segments: a string is cut at every separator, the segments
  are normalised with a stack exactly as Node's \<^verbatim>\<open>normalizeString\<close> does (empty and
  \<^verbatim>\<open>.\<close> segments are dropped, \<^verbatim>\<open>..\<close> pops), and \<open>render\<close> gives back the string that
  Node returns for an absolute path. JavaScript strings are modelled as \<open>string\<close>.
\<close>

type_synonym path = "string list"

definition sep :: char where
  "sep = CHR ''/''"

fun splitc :: "char \<Rightarrow> string \<Rightarrow> string list" where
  "splitc d [] = [[]]"
| "splitc d (c # cs) =
     (if c = d then [] # splitc d cs
      else (case splitc d cs of [] \<Rightarrow> [[c]] | p # ps \<Rightarrow> (c # p) # ps))"

fun join_with :: "string \<Rightarrow> string list \<Rightarrow> string" where
  "join_with s [] = []"
| "join_with s [p] = p"
| "join_with s (p # q # ps) = p @ s @ join_with s (q # ps)"

text \<open>
  \<^verbatim>\<open>normalizeString(path, allowAboveRoot)\<close>: the accumulator holds the segments kept so
  far, last one first.
\<close>

fun normalize_segs :: "bool \<Rightarrow> string list \<Rightarrow> string list \<Rightarrow> string list" where
  "normalize_segs up acc [] = rev acc"
| "normalize_segs up acc (s # ss) =
     (if s = [] \<or> s = ''.'' then normalize_segs up acc ss
      else if s = ''..'' then
        (if acc \<noteq> [] \<and> hd acc \<noteq> ''..'' then normalize_segs up (tl acc) ss
         else if up then normalize_segs up (''..'' # acc) ss
         else normalize_segs up acc ss)
      else normalize_segs up (s # acc) ss)"

definition normalizeString :: "string \<Rightarrow> bool \<Rightarrow> string list" where
  "normalizeString p allowAboveRoot = normalize_segs allowAboveRoot [] (splitc sep p)"

definition path_normalize :: "string \<Rightarrow> string" where
  "path_normalize p =
     (if p = [] then ''.''
      else
        let isAbsolute = (hd p = sep);
            trailingSeparator = (last p = sep);
            q = join_with [sep] (normalizeString p (\<not> isAbsolute))
        in if q = [] then (if isAbsolute then [sep] else if trailingSeparator then ''./'' else ''.'')
           else (if isAbsolute then [sep] else []) @ q @ (if trailingSeparator then [sep] else []))"

text \<open>\<^verbatim>\<open>path.join(a, b)\<close>: empty arguments are skipped, the rest joined and normalised.\<close>

definition path_join :: "string \<Rightarrow> string \<Rightarrow> string" where
  "path_join a b =
     (let joined = (if a = [] then b else if b = [] then a else a @ [sep] @ b)
      in if joined = [] then ''.'' else path_normalize joined)"

text \<open>
  \<^verbatim>\<open>path.resolve(...args)\<close>: the arguments are read from the last to the first until an
  absolute one is found, the working directory standing in front of them all; empty
  arguments are skipped. \<open>resolve_raw\<close> takes the arguments last one first and returns
  the segments of the concatenation. \<^verbatim>\<open>process.cwd()\<close> is an absolute path on POSIX, so
  the result is always absolute and is represented by its segments.
\<close>

fun resolve_raw :: "string \<Rightarrow> string list \<Rightarrow> string list" where
  "resolve_raw cwd [] = splitc sep cwd"
| "resolve_raw cwd (p # ps) =
     (if p = [] then resolve_raw cwd ps
      else if hd p = sep then splitc sep p
      else resolve_raw cwd ps @ splitc sep p)"

definition path_resolve :: "string \<Rightarrow> string list \<Rightarrow> path" where
  "path_resolve cwd args = normalize_segs False [] (resolve_raw cwd (rev args))"

text \<open>The string of an absolute normalised path: \<^verbatim>\<open>`/${segments.join('/')}`\<close>.\<close>

definition render :: "path \<Rightarrow> string" where
  "render p = sep # join_with [sep] p"

text \<open>\<^verbatim>\<open>path.dirname\<close> of an absolute normalised path drops its last segment.\<close>

definition path_dirname :: "path \<Rightarrow> path" where
  "path_dirname p = butlast p"

section \<open>JavaScript string primitives\<close>

text \<open>
  \<^verbatim>\<open>String.prototype.trim\<close> and \<^verbatim>\<open>toLowerCase\<close> on the ASCII range (the white space
  characters TAB, LF, VT, FF, CR and SPACE; the letters A to Z).
\<close>

definition is_space :: "char \<Rightarrow> bool" where
  "is_space c = (c \<in> set [CHR 0x09, CHR 0x0A, CHR 0x0B, CHR 0x0C, CHR 0x0D, CHR '' ''])"

definition trim :: "string \<Rightarrow> string" where
  "trim s = rev (dropWhile is_space (rev (dropWhile is_space s)))"

definition lower_char :: "char \<Rightarrow> char" where
  "lower_char c =
     (let n = (of_char c :: nat) in if 65 \<le> n \<and> n \<le> 90 then char_of (n + 32) else c)"

definition toLowerCase :: "string \<Rightarrow> string" where
  "toLowerCase s = map lower_char s"

text \<open>
  \<^verbatim>\<open>s.split(sep)\<close> for a string separator: the string is scanned from the left and cut
  at every match, a match consuming the separator. The empty separator cuts the string
  into its characters.
\<close>

fun split_on :: "string \<Rightarrow> string \<Rightarrow> string list" where
  "split_on f [] = [[]]"
| "split_on f (c # cs) =
     (if prefix f (c # cs) then [] # split_on f (drop (length f - 1) cs)
      else (case split_on f cs of [] \<Rightarrow> [[c]] | p # ps \<Rightarrow> (c # p) # ps))"

definition js_split :: "string \<Rightarrow> string \<Rightarrow> string list" where
  "js_split s f = (if f = [] then map (\<lambda>c. [c]) s else split_on f s)"

text \<open>
  \<^verbatim>\<open>s.replace(pattern, replacement)\<close> with a string pattern: the first match only, and
  the replacement is a template in which \<^verbatim>\<open>$$\<close>, \<^verbatim>\<open>$&\<close>, \<^verbatim>\<open>$`\<close> and \<^verbatim>\<open>$'\<close> stand for a
  dollar sign, the match, the text before it and the text after it (GetSubstitution of
  ECMA-262; a string pattern has no capture groups, so \<^verbatim>\<open>$1\<close> and the like stay as
  they are).
\<close>

fun find_first :: "string \<Rightarrow> string \<Rightarrow> (string \<times> string) option" where
  "find_first f [] = (if f = [] then Some ([], []) else None)"
| "find_first f (c # cs) =
     (if prefix f (c # cs) then Some ([], drop (length f) (c # cs))
      else (case find_first f cs of None \<Rightarrow> None | Some (pre, post) \<Rightarrow> Some (c # pre, post)))"

fun get_substitution :: "string \<Rightarrow> string \<Rightarrow> string \<Rightarrow> string \<Rightarrow> string" where
  "get_substitution matched pre post [] = []"
| "get_substitution matched pre post [c] = [c]"
| "get_substitution matched pre post (c # d # r) =
     (if c = CHR ''$'' \<and> d = CHR ''$'' then CHR ''$'' # get_substitution matched pre post r
      else if c = CHR ''$'' \<and> d = CHR ''&'' then matched @ get_substitution matched pre post r
      else if c = CHR ''$'' \<and> d = CHR 0x60 then pre @ get_substitution matched pre post r
      else if c = CHR ''$'' \<and> d = CHR 0x27 then post @ get_substitution matched pre post r
      else c # get_substitution matched pre post (d # r))"

definition js_replace :: "string \<Rightarrow> string \<Rightarrow> string \<Rightarrow> string" where
  "js_replace s f r =
     (case find_first f s of
        None \<Rightarrow> s
      | Some (pre, post) \<Rightarrow> pre @ get_substitution f pre post r @ post)"

text \<open>Decimal digits of a number, for \<^verbatim>\<open>`${code}`\<close>.\<close>

function show_nat :: "nat \<Rightarrow> string" where
  "show_nat n = (if n < 10 then [char_of (48 + n)] else show_nat (n div 10) @ [char_of (48 + n mod 10)])"
  by pat_completeness auto
termination
  by (relation "measure id") auto

definition show_int :: "int \<Rightarrow> string" where
  "show_int i = (if i < 0 then CHR ''-'' # show_nat (nat (- i)) else show_nat (nat i))"

section \<open>The filesystem and child processes\<close>

text \<open>
  The filesystem that \<^verbatim>\<open>node:fs/promises\<close> acts on is a map from absolute paths to
  nodes (regular files with their text, directories); symbolic links and permissions are
  outside the model. The root directory always exists.
\<close>

datatype node = File string | Dir

type_synonym fs = "path \<rightharpoonup> node"

definition node_at :: "fs \<Rightarrow> path \<Rightarrow> node option" where
  "node_at m p = (if p = [] then Some Dir else m p)"

fun is_file :: "node option \<Rightarrow> bool" where
  "is_file (Some (File c)) = True"
| "is_file _ = False"

text \<open>
  Errors are values. The first two are the adapters' own (\<^verbatim>\<open>Path escapes root\<close>,
  \<^verbatim>\<open>File already exists\<close>); \<open>FsError\<close> carries the code of a failed filesystem call.
\<close>

datatype error =
    PathEscapesRoot string
  | FileAlreadyExists string
  | FsError string path
  | CommandFailed string
  | SpawnError string
  | OsError string
  | MissingApiKey
  | TransportError string
  | PlanParseFailed string

text \<open>A call of \<^verbatim>\<open>child_process.spawn\<close> and what becomes of the child.\<close>

record spawn_call =
  sp_command :: string
  sp_args :: "string list"
  sp_cwd :: "string option"
  sp_shell :: bool

datatype proc_outcome =
    ProcError string
  | ProcClose "int option" string string

record world =
  files :: fs
  spawned :: "spawn_call list"

record chat_request =
  req_model :: string
  req_messages :: "(string \<times> string) list"
  req_json_object :: bool
  req_temperature :: rat

text \<open>
  The host gives what the program reads from its environment: the home and working
  directories, the platform descriptor, the behaviour of child processes (their outcome
  and what they do to the files), and those filesystem services whose result depends on
  data outside the model (\<^verbatim>\<open>rename\<close>, directory listings, \<^verbatim>\<open>stat\<close>), each taken as a
  parameter.
\<close>

record host =
  homedir :: string
  cwd :: string
  tmpdir :: string
  now :: string
  platform :: string
  release :: string
  arch :: string
  run_process :: "spawn_call \<Rightarrow> fs \<Rightarrow> proc_outcome \<times> fs"
  os_rename :: "path \<Rightarrow> path \<Rightarrow> fs \<Rightarrow> error + fs"
  os_walk :: "path \<Rightarrow> bool \<Rightarrow> bool \<Rightarrow> fs \<Rightarrow> error + string list"
  os_stat :: "string \<Rightarrow> path \<Rightarrow> fs \<Rightarrow> error + string"
  os_scan :: "path \<Rightarrow> string \<Rightarrow> fs \<Rightarrow> error + string list"

text \<open>\<^verbatim>\<open>fs.mkdir(p, { recursive: true })\<close>: every missing ancestor is created.\<close>

definition fs_mkdir_recursive :: "path \<Rightarrow> fs \<Rightarrow> error + fs" where
  "fs_mkdir_recursive p m =
     (if list_ex (\<lambda>q. is_file (node_at m q)) (prefixes p)
      then Inl (FsError (if is_file (node_at m p) then ''EEXIST'' else ''ENOTDIR'') p)
      else Inr (fold (\<lambda>q m'. if node_at m' q = None then m'(q \<mapsto> Dir) else m') (prefixes p) m))"

text \<open>\<^verbatim>\<open>fs.access(p).then(() => true).catch(() => false)\<close>\<close>

definition fs_access :: "path \<Rightarrow> fs \<Rightarrow> bool" where
  "fs_access p m = (node_at m p \<noteq> None)"

definition fs_writeFile :: "path \<Rightarrow> string \<Rightarrow> fs \<Rightarrow> error + fs" where
  "fs_writeFile p content m =
     (if node_at m p = Some Dir then Inl (FsError ''EISDIR'' p)
      else if node_at m (butlast p) = Some Dir then Inr (m(p \<mapsto> File content))
      else Inl (FsError (if node_at m (butlast p) = None then ''ENOENT'' else ''ENOTDIR'') p))"

definition fs_appendFile :: "path \<Rightarrow> string \<Rightarrow> fs \<Rightarrow> error + fs" where
  "fs_appendFile p content m =
     (case node_at m p of
        Some Dir \<Rightarrow> Inl (FsError ''EISDIR'' p)
      | Some (File old) \<Rightarrow> Inr (m(p \<mapsto> File (old @ content)))
      | None \<Rightarrow> fs_writeFile p content m)"

definition fs_readFile :: "path \<Rightarrow> fs \<Rightarrow> error + string" where
  "fs_readFile p m =
     (case node_at m p of
        Some (File c) \<Rightarrow> Inr c
      | Some Dir \<Rightarrow> Inl (FsError ''EISDIR'' p)
      | None \<Rightarrow> Inl (FsError ''ENOENT'' p))"

text \<open>\<^verbatim>\<open>fs.rm(p, { recursive: true, force: true })\<close>\<close>

definition fs_rm :: "path \<Rightarrow> fs \<Rightarrow> fs" where
  "fs_rm p m = (\<lambda>q. if prefix p q then None else m q)"

section \<open>Path resolution within the workspace root\<close>

text \<open>\<^verbatim>\<open>export type ToolContext = { root: string; allowOutsideRoot?: boolean }\<close>\<close>

record ToolContext =
  ctx_root :: string
  allowOutsideRoot :: "bool option"

definition expandHome :: "host \<Rightarrow> string \<Rightarrow> string" where
  "expandHome h target =
     (if target = ''~'' then homedir h
      else if prefix (CHR ''~'' # [sep]) target then path_join (homedir h) (drop 2 target)
      else target)"

text \<open>
  \<^verbatim>\<open>resolveWithinRoot(root, target, allowOutsideRoot = true)\<close>. The two comparisons are
  made on the strings, as in the source: \<^verbatim>\<open>resolved.startsWith(normalizedRoot + path.sep)\<close>
  and \<^verbatim>\<open>resolved !== normalizedRoot\<close>.
\<close>

definition resolveWithinRoot :: "host \<Rightarrow> string \<Rightarrow> string \<Rightarrow> bool \<Rightarrow> error + path" where
  "resolveWithinRoot h r target allow =
     (let resolved = path_resolve (cwd h) [r, expandHome h target];
          normalizedRoot = path_resolve (cwd h) [r]
      in if \<not> allow \<and> \<not> prefix (render normalizedRoot @ [sep]) (render resolved)
             \<and> render resolved \<noteq> render normalizedRoot
         then Inl (PathEscapesRoot target)
         else Inr resolved)"

text \<open>
  A parameter that is \<^verbatim>\<open>undefined\<close> takes its default: every adapter passes
  \<^verbatim>\<open>ctx.allowOutsideRoot\<close>, which is optional.
\<close>

definition resolveCtx :: "host \<Rightarrow> ToolContext \<Rightarrow> string \<Rightarrow> error + path" where
  "resolveCtx h ctx target =
     resolveWithinRoot h (ctx_root ctx) target
       (case allowOutsideRoot ctx of None \<Rightarrow> True | Some b \<Rightarrow> b)"

text \<open>
  What the specification calls "nested under": the root's segments are a proper
  prefix of the path's segments.
\<close>

definition nested_under :: "path \<Rightarrow> path \<Rightarrow> bool" where
  "nested_under r p = strict_prefix r p"

text \<open>
  Segments that \<^verbatim>\<open>path.resolve\<close> can return: non-empty and free of separators.
\<close>

definition clean :: "path \<Rightarrow> bool" where
  "clean p = list_all (\<lambda>s. s \<noteq> [] \<and> sep \<notin> set s) p"

definition flat :: "path \<Rightarrow> string" where
  "flat p = concat (map ((#) sep) p)"

section \<open>Tool adapters\<close>

text \<open>
  Each adapter of \<^verbatim>\<open>src/core/tools.ts\<close> takes the world and returns its result (the
  string it resolves with, or the error it rejects with) together with the world it
  leaves behind; what was done before a failure stays done.
\<close>

definition newline :: string where
  "newline = [CHR 0x0A]"

definition moveFile :: "host \<Rightarrow> ToolContext \<Rightarrow> string \<Rightarrow> string \<Rightarrow> world \<Rightarrow> (error + string) \<times> world" where
  "moveFile h ctx from to w =
     (case resolveCtx h ctx from of
        Inl e \<Rightarrow> (Inl e, w)
      | Inr source \<Rightarrow>
          (case resolveCtx h ctx to of
             Inl e \<Rightarrow> (Inl e, w)
           | Inr dest \<Rightarrow>
               (case fs_mkdir_recursive (path_dirname dest) (files w) of
                  Inl e \<Rightarrow> (Inl e, w)
                | Inr m1 \<Rightarrow>
                    (case os_rename h source dest m1 of
                       Inl e \<Rightarrow> (Inl e, w\<lparr>files := m1\<rparr>)
                     | Inr m2 \<Rightarrow> (Inr (''Moved '' @ from @ '' -> '' @ to), w\<lparr>files := m2\<rparr>)))))"

definition renameFile :: "host \<Rightarrow> ToolContext \<Rightarrow> string \<Rightarrow> string \<Rightarrow> world \<Rightarrow> (error + string) \<times> world" where
  "renameFile h ctx from to w =
     (case resolveCtx h ctx from of
        Inl e \<Rightarrow> (Inl e, w)
      | Inr source \<Rightarrow>
          (case resolveCtx h ctx to of
             Inl e \<Rightarrow> (Inl e, w)
           | Inr dest \<Rightarrow>
               (case os_rename h source dest (files w) of
                  Inl e \<Rightarrow> (Inl e, w)
                | Inr m2 \<Rightarrow> (Inr (''Renamed '' @ from @ '' -> '' @ to), w\<lparr>files := m2\<rparr>))))"

text \<open>\<^verbatim>\<open>raw.split(/\r?\n/)\<close> and \<^verbatim>\<open>Array.prototype.slice\<close>.\<close>

fun split_lines :: "string \<Rightarrow> string list" where
  "split_lines [] = [[]]"
| "split_lines (c # cs) =
     (if c = CHR 0x0A then [] # split_lines cs
      else (case cs of
              [] \<Rightarrow> [[c]]
            | d # ds \<Rightarrow>
                if c = CHR 0x0D \<and> d = CHR 0x0A then [] # split_lines ds
                else (case split_lines cs of [] \<Rightarrow> [[c]] | p # ps \<Rightarrow> (c # p) # ps)))"

definition js_slice :: "'a list \<Rightarrow> int \<Rightarrow> int \<Rightarrow> 'a list" where
  "js_slice xs a b =
     (let n = int (length xs);
          k = (if a < 0 then max (n + a) 0 else min a n);
          e = (if b < 0 then max (n + b) 0 else min b n)
      in take (nat (e - k)) (drop (nat k) xs))"

definition readFile ::
  "host \<Rightarrow> ToolContext \<Rightarrow> string \<Rightarrow> int option \<Rightarrow> int option \<Rightarrow> world \<Rightarrow> (error + string) \<times> world" where
  "readFile h ctx target start end w =
     (case resolveCtx h ctx target of
        Inl e \<Rightarrow> (Inl e, w)
      | Inr resolved \<Rightarrow>
          (case fs_readFile resolved (files w) of
             Inl e \<Rightarrow> (Inl e, w)
           | Inr raw \<Rightarrow>
               if start = None \<and> end = None then (Inr raw, w)
               else
                 let lines = split_lines raw;
                     from = max 1 (case start of None \<Rightarrow> 1 | Some n \<Rightarrow> n);
                     to = min (int (length lines)) (case end of None \<Rightarrow> int (length lines) | Some n \<Rightarrow> n)
                 in (Inr (join_with newline (js_slice lines (from - 1) to)), w)))"

definition writeFile :: "host \<Rightarrow> ToolContext \<Rightarrow> string \<Rightarrow> string \<Rightarrow> world \<Rightarrow> (error + string) \<times> world" where
  "writeFile h ctx target content w =
     (case resolveCtx h ctx target of
        Inl e \<Rightarrow> (Inl e, w)
      | Inr resolved \<Rightarrow>
          (case fs_mkdir_recursive (path_dirname resolved) (files w) of
             Inl e \<Rightarrow> (Inl e, w)
           | Inr m1 \<Rightarrow>
               (case fs_writeFile resolved content m1 of
                  Inl e \<Rightarrow> (Inl e, w\<lparr>files := m1\<rparr>)
                | Inr m2 \<Rightarrow> (Inr (''Wrote '' @ target), w\<lparr>files := m2\<rparr>))))"

definition appendFile :: "host \<Rightarrow> ToolContext \<Rightarrow> string \<Rightarrow> string \<Rightarrow> world \<Rightarrow> (error + string) \<times> world" where
  "appendFile h ctx target content w =
     (case resolveCtx h ctx target of
        Inl e \<Rightarrow> (Inl e, w)
      | Inr resolved \<Rightarrow>
          (case fs_mkdir_recursive (path_dirname resolved) (files w) of
             Inl e \<Rightarrow> (Inl e, w)
           | Inr m1 \<Rightarrow>
               (case fs_appendFile resolved content m1 of
                  Inl e \<Rightarrow> (Inl e, w\<lparr>files := m1\<rparr>)
                | Inr m2 \<Rightarrow> (Inr (''Appended '' @ target), w\<lparr>files := m2\<rparr>))))"

definition createFile ::
  "host \<Rightarrow> ToolContext \<Rightarrow> string \<Rightarrow> string \<Rightarrow> bool \<Rightarrow> world \<Rightarrow> (error + string) \<times> world" where
  "createFile h ctx target content overwrite w =
     (case resolveCtx h ctx target of
        Inl e \<Rightarrow> (Inl e, w)
      | Inr resolved \<Rightarrow>
          (case fs_mkdir_recursive (path_dirname resolved) (files w) of
             Inl e \<Rightarrow> (Inl e, w)
           | Inr m1 \<Rightarrow>
               let exists = fs_access resolved m1
               in if exists \<and> \<not> overwrite then (Inl (FileAlreadyExists target), w\<lparr>files := m1\<rparr>)
                  else (case fs_writeFile resolved content m1 of
                          Inl e \<Rightarrow> (Inl e, w\<lparr>files := m1\<rparr>)
                        | Inr m2 \<Rightarrow> (Inr (''Created '' @ target), w\<lparr>files := m2\<rparr>))))"

definition deleteFile :: "host \<Rightarrow> ToolContext \<Rightarrow> string \<Rightarrow> world \<Rightarrow> (error + string) \<times> world" where
  "deleteFile h ctx target w =
     (case resolveCtx h ctx target of
        Inl e \<Rightarrow> (Inl e, w)
      | Inr resolved \<Rightarrow> (Inr (''Deleted '' @ target), w\<lparr>files := fs_rm resolved (files w)\<rparr>))"

text \<open>
  \<^verbatim>\<open>replaceAll ? raw.split(find).join(replace) : raw.replace(find, replace)\<close>
\<close>

definition replace_text :: "string \<Rightarrow> string \<Rightarrow> string \<Rightarrow> bool \<Rightarrow> string" where
  "replace_text raw search replace replaceAll =
     (if replaceAll then join_with replace (js_split raw search) else js_replace raw search replace)"

definition replaceInFile ::
  "host \<Rightarrow> ToolContext \<Rightarrow> string \<Rightarrow> string \<Rightarrow> string \<Rightarrow> bool \<Rightarrow> world \<Rightarrow> (error + string) \<times> world" where
  "replaceInFile h ctx target search replace replaceAll w =
     (case resolveCtx h ctx target of
        Inl e \<Rightarrow> (Inl e, w)
      | Inr resolved \<Rightarrow>
          (case fs_readFile resolved (files w) of
             Inl e \<Rightarrow> (Inl e, w)
           | Inr raw \<Rightarrow>
               (case fs_writeFile resolved (replace_text raw search replace replaceAll) (files w) of
                  Inl e \<Rightarrow> (Inl e, w)
                | Inr m2 \<Rightarrow> (Inr (''Replaced text in '' @ target), w\<lparr>files := m2\<rparr>))))"

definition listDir ::
  "host \<Rightarrow> ToolContext \<Rightarrow> string \<Rightarrow> bool \<Rightarrow> bool \<Rightarrow> world \<Rightarrow> (error + string) \<times> world" where
  "listDir h ctx target recursive includeHidden w =
     (case resolveCtx h ctx target of
        Inl e \<Rightarrow> (Inl e, w)
      | Inr resolved \<Rightarrow>
          (case os_walk h resolved recursive includeHidden (files w) of
             Inl e \<Rightarrow> (Inl e, w)
           | Inr entries \<Rightarrow> (Inr (join_with newline entries), w)))"

definition fileInfo :: "host \<Rightarrow> ToolContext \<Rightarrow> string \<Rightarrow> world \<Rightarrow> (error + string) \<times> world" where
  "fileInfo h ctx target w =
     (case resolveCtx h ctx target of
        Inl e \<Rightarrow> (Inl e, w)
      | Inr resolved \<Rightarrow>
          (case os_stat h target resolved (files w) of
             Inl e \<Rightarrow> (Inl e, w)
           | Inr json \<Rightarrow> (Inr json, w)))"

text \<open>
  \<^verbatim>\<open>runShell\<close>: the command goes through the shell when there are no arguments and the
  command holds a space; otherwise it is spawned directly with its arguments. The call
  is recorded in \<open>spawned\<close>.
\<close>

definition shell_call :: "ToolContext \<Rightarrow> string \<Rightarrow> string list \<Rightarrow> spawn_call" where
  "shell_call ctx command args =
     (let useShell = (length args = 0 \<and> CHR '' '' \<in> set command)
      in if useShell
         then \<lparr>sp_command = command, sp_args = [], sp_cwd = Some (ctx_root ctx), sp_shell = True\<rparr>
         else \<lparr>sp_command = command, sp_args = args, sp_cwd = Some (ctx_root ctx), sp_shell = False\<rparr>)"

definition runShell :: "host \<Rightarrow> ToolContext \<Rightarrow> string \<Rightarrow> string list \<Rightarrow> world \<Rightarrow> (error + string) \<times> world" where
  "runShell h ctx command args w =
     (let call = shell_call ctx command args;
          (outcome, m1) = run_process h call (files w);
          w1 = w\<lparr>files := m1, spawned := spawned w @ [call]\<rparr>
      in case outcome of
           ProcError msg \<Rightarrow> (Inl (SpawnError msg), w1)
         | ProcClose code out err \<Rightarrow>
             if code = Some 0
             then (Inr (if trim out = [] then ''Command completed'' else trim out), w1)
             else (Inl (CommandFailed
                          (if trim err = []
                           then ''Command failed with code ''
                                @ (case code of None \<Rightarrow> ''null'' | Some c \<Rightarrow> show_int c)
                           else trim err)), w1))"

definition runGit :: "host \<Rightarrow> ToolContext \<Rightarrow> string list \<Rightarrow> world \<Rightarrow> (error + string) \<times> world" where
  "runGit h ctx args w = runShell h ctx ''git'' args w"

definition hasCommand :: "host \<Rightarrow> string \<Rightarrow> world \<Rightarrow> bool \<times> world" where
  "hasCommand h command w =
     (let call = \<lparr>sp_command = command, sp_args = [''--version''], sp_cwd = None, sp_shell = False\<rparr>;
          (outcome, m1) = run_process h call (files w);
          w1 = w\<lparr>files := m1, spawned := spawned w @ [call]\<rparr>
      in case outcome of
           ProcError msg \<Rightarrow> (False, w1)
         | ProcClose code out err \<Rightarrow> (code = Some 0, w1))"

definition searchFiles ::
  "host \<Rightarrow> ToolContext \<Rightarrow> string \<Rightarrow> string option \<Rightarrow> world \<Rightarrow> (error + string) \<times> world" where
  "searchFiles h ctx query glob w =
     (case resolveCtx h ctx ''.'' of
        Inl e \<Rightarrow> (Inl e, w)
      | Inr resolved \<Rightarrow>
          let (useRg, w1) = hasCommand h ''rg'' w
          in if useRg
             then runShell h ctx ''rg''
                    ((case glob of None \<Rightarrow> [] | Some g \<Rightarrow> if g = [] then [] else [''-g'', g])
                     @ [''-n'', query, render resolved]) w1
             else (case os_scan h resolved query (files w1) of
                     Inl e \<Rightarrow> (Inl e, w1)
                   | Inr results \<Rightarrow> (Inr (join_with newline results), w1)))"

definition applyPatch :: "host \<Rightarrow> ToolContext \<Rightarrow> string \<Rightarrow> world \<Rightarrow> (error + string) \<times> world" where
  "applyPatch h ctx patch w =
     (case resolveCtx h ctx ''.'' of
        Inl e \<Rightarrow> (Inl e, w)
      | Inr resolved \<Rightarrow>
          let tempPath = path_join (tmpdir h) (''darell-'' @ now h @ ''.patch'');
              temp = path_resolve (cwd h) [tempPath]
          in (case fs_writeFile temp patch (files w) of
                Inl e \<Rightarrow> (Inl e, w)
              | Inr m1 \<Rightarrow>
                  (let useGit = fs_access (resolved @ [''.git'']) m1;
                       (r, w2) = (if useGit
                                  then runShell h ctx ''git'' [''apply'', ''--whitespace=nowarn'', tempPath]
                                         (w\<lparr>files := m1\<rparr>)
                                  else runShell h ctx ''patch'' [''-p0'', ''-i'', tempPath]
                                         (w\<lparr>files := m1\<rparr>));
                       w3 = w2\<lparr>files := fs_rm temp (files w2)\<rparr>
                   in (case r of Inl e \<Rightarrow> (Inl e, w3) | Inr out \<Rightarrow> (Inr ''Patch applied'', w3)))))"

section \<open>JavaScript numbers\<close>

text \<open>
  Prices and costs are JavaScript numbers, that is IEEE 754 binary64 values, and every
  arithmetic operation on them returns the exact result rounded to the nearest such
  value, ties going to the even significand. A number is modelled by the rational it
  denotes, and \<open>fl x\<close> is the rational with 53 significant bits that is nearest to \<open>x\<close>:
  with \<open>2 ^ L \<le> \<bar>x\<bar> < 2 ^ (L + 1)\<close> the significand is \<open>\<bar>x\<bar> / 2 ^ (L - 52)\<close> rounded to an
  integer. This is the binary64 result wherever the magnitude lies in the normal range
  (from \<open>2 ^ -1022\<close> up to \<open>2 ^ 1024\<close>); overflow, subnormal numbers and NaN are not
  modelled. The product, quotient and sum of two numbers \<open>a\<close> and \<open>b\<close> are
  \<open>fl (a * b)\<close>, \<open>fl (a / b)\<close> and \<open>fl (a + b)\<close>, and a decimal literal \<open>d\<close> of the source
  or of the configuration is read as \<open>fl d\<close>.
\<close>

definition round_even :: "rat \<Rightarrow> int" where
  "round_even x =
     (let f = \<lfloor>x\<rfloor>; d = x - of_int f
      in if d < 1 / 2 then f else if 1 / 2 < d then f + 1 else if even f then f else f + 1)"

definition log2_floor :: "rat \<Rightarrow> int" where
  "log2_floor x =
     (let (p, q) = quotient_of x; k = bitlen p - bitlen q
      in if x < 2 powi k then k - 1 else k)"

definition fl :: "rat \<Rightarrow> rat" where
  "fl x =
     (if x = 0 then 0
      else let e = log2_floor \<bar>x\<bar> - 52; n = round_even (\<bar>x\<bar> / 2 powi e)
           in sgn x * of_int n * 2 powi e)"

text \<open>
  The relative error of one rounding is at most \<open>ulp_rel\<close>; \<open>near k x y\<close> says that \<open>x\<close> is
  \<open>y\<close> up to \<open>k\<close> roundings.
\<close>

definition ulp_rel :: rat where
  "ulp_rel = 1 / 2 ^ 53"

definition near :: "nat \<Rightarrow> rat \<Rightarrow> rat \<Rightarrow> bool" where
  "near k x y = ((1 - ulp_rel) ^ k * y \<le> x \<and> x \<le> (1 + ulp_rel) ^ k * y)"

text \<open>
  The ranges within which the cost computation stays in the normal range of binary64: a
  token count is a non-negative integer below \<open>2 ^ 53\<close>, a price is zero or lies between
  \<open>2 ^ -500\<close> and \<open>2 ^ 500\<close>.
\<close>

definition token_count :: "int \<Rightarrow> bool" where
  "token_count n = (0 \<le> n \<and> n < 2 ^ 53)"

definition price_in_range :: "rat \<Rightarrow> bool" where
  "price_in_range p = (p = 0 \<or> (1 / 2 ^ 500 \<le> p \<and> p \<le> 2 ^ 500))"

section \<open>Usage and cost accounting\<close>

text \<open>
  \<^verbatim>\<open>ModelPricing\<close>, \<^verbatim>\<open>UsageSummary\<close> and the raw counters of a model response. Token
  counts are integers. A price (per million tokens) is held as the decimal that the
  pricing table or the configuration writes, and enters the arithmetic as the number
  \<open>fl\<close> of it; a cost is a number.
\<close>

record ModelPricing =
  input_price :: rat
  output_price :: rat
  cachedInput_price :: "rat option"

record UsageSummary =
  model :: string
  promptTokens :: int
  completionTokens :: int
  totalTokens :: int
  cachedTokens :: int
  cost :: "rat option"

record prompt_details =
  cached_tokens :: "int option"

record raw_usage =
  prompt_tokens :: "int option"
  completion_tokens :: "int option"
  total_tokens :: "int option"
  prompt_tokens_details :: "prompt_details option"

definition DEFAULT_PRICING :: "(string \<times> ModelPricing) list" where
  "DEFAULT_PRICING =
    [(''gpt-5.2'', \<lparr>input_price = 175 / 100, output_price = 14, cachedInput_price = Some (175 / 1000)\<rparr>),
     (''gpt-5.2-chat-latest'', \<lparr>input_price = 175 / 100, output_price = 14, cachedInput_price = Some (175 / 1000)\<rparr>),
     (''gpt-5.2-pro'', \<lparr>input_price = 21, output_price = 168, cachedInput_price = None\<rparr>),
     (''gpt-5.1'', \<lparr>input_price = 125 / 100, output_price = 10, cachedInput_price = Some (125 / 1000)\<rparr>),
     (''gpt-5.1-chat-latest'', \<lparr>input_price = 125 / 100, output_price = 10, cachedInput_price = Some (125 / 1000)\<rparr>),
     (''gpt-5-pro'', \<lparr>input_price = 15, output_price = 120, cachedInput_price = None\<rparr>),
     (''gpt-4o'', \<lparr>input_price = 25 / 10, output_price = 10, cachedInput_price = Some (125 / 100)\<rparr>),
     (''gpt-4o-mini'', \<lparr>input_price = 15 / 100, output_price = 6 / 10, cachedInput_price = Some (75 / 1000)\<rparr>),
     (''gpt-4.1'', \<lparr>input_price = 2, output_price = 8, cachedInput_price = Some (5 / 10)\<rparr>),
     (''gpt-4.1-mini'', \<lparr>input_price = 4 / 10, output_price = 16 / 10, cachedInput_price = Some (1 / 10)\<rparr>),
     (''gpt-4.1-nano'', \<lparr>input_price = 1 / 10, output_price = 4 / 10, cachedInput_price = Some (25 / 1000)\<rparr>)]"

definition normalizeModel :: "string \<Rightarrow> string" where
  "normalizeModel m = toLowerCase (trim m)"

text \<open>The list that \<^verbatim>\<open>resolvePricing\<close> searches with \<^verbatim>\<open>find\<close>, in the source's order.\<close>

definition PREFIX_ORDER :: "string list" where
  "PREFIX_ORDER =
    [''gpt-5.2'', ''gpt-5.1'', ''gpt-5-pro'', ''gpt-5.2-pro'', ''gpt-4o-mini'', ''gpt-4o'',
     ''gpt-4.1-mini'', ''gpt-4.1-nano'', ''gpt-4.1'']"

definition resolvePricing :: "string \<Rightarrow> (string \<rightharpoonup> ModelPricing) option \<Rightarrow> ModelPricing option" where
  "resolvePricing m overrides =
     (let normalized = normalizeModel m;
          direct = (case overrides of
                      None \<Rightarrow> None
                    | Some ov \<Rightarrow> (case ov m of Some d \<Rightarrow> Some d | None \<Rightarrow> ov normalized))
      in case direct of
           Some d \<Rightarrow> Some d
         | None \<Rightarrow>
             (case map_of DEFAULT_PRICING normalized of
                Some d \<Rightarrow> Some d
              | None \<Rightarrow>
                  (case find (\<lambda>p. prefix (p @ ''-'') normalized) PREFIX_ORDER of
                     Some prefixMatch \<Rightarrow> map_of DEFAULT_PRICING prefixMatch
                   | None \<Rightarrow> None)))"

text \<open>
  What the specification promises instead of the \<^verbatim>\<open>find\<close>: the longest known model
  name that is a prefix of the queried name.
\<close>

definition longest_known_prefix :: "string \<Rightarrow> string option" where
  "longest_known_prefix m =
     fold (\<lambda>k best. if prefix k m \<and> (case best of None \<Rightarrow> True | Some b \<Rightarrow> length b < length k)
                     then Some k else best)
          (map fst DEFAULT_PRICING) None"

definition summarizeUsage ::
  "string \<Rightarrow> raw_usage option \<Rightarrow> (string \<rightharpoonup> ModelPricing) option \<Rightarrow> UsageSummary option" where
  "summarizeUsage m usage overrides =
     (case usage of
        None \<Rightarrow> None
      | Some u \<Rightarrow>
          let pT = (case prompt_tokens u of None \<Rightarrow> 0 | Some n \<Rightarrow> n);
              cT = (case completion_tokens u of None \<Rightarrow> 0 | Some n \<Rightarrow> n);
              tT = (case total_tokens u of None \<Rightarrow> pT + cT | Some n \<Rightarrow> n);
              cachedT = (case prompt_tokens_details u of
                           None \<Rightarrow> 0
                         | Some d \<Rightarrow> (case cached_tokens d of None \<Rightarrow> 0 | Some n \<Rightarrow> n))
          in (case resolvePricing m overrides of
                None \<Rightarrow>
                  Some \<lparr>model = m, promptTokens = pT, completionTokens = cT, totalTokens = tT,
                        cachedTokens = cachedT, cost = None\<rparr>
              | Some pricing \<Rightarrow>
                  (let cached = min cachedT pT;
                       billableInput = max 0 (pT - cached);
                       cachedRate = (case cachedInput_price pricing of
                                       None \<Rightarrow> input_price pricing
                                     | Some r \<Rightarrow> r);
                       c = fl (fl (fl (fl (of_int billableInput * fl (input_price pricing)) / 1000000)
                                   + fl (fl (of_int cached * fl cachedRate) / 1000000))
                               + fl (fl (of_int cT * fl (output_price pricing)) / 1000000))
                   in Some \<lparr>model = m, promptTokens = pT, completionTokens = cT, totalTokens = tT,
                            cachedTokens = cachedT, cost = Some c\<rparr>)))"

text \<open>
  The cost formula in the specification's words: cached tokens capped at the prompt
  tokens, billable input the rest of the prompt, the cached rate defaulting to the input
  rate, one division by a million. \<open>spec_cost\<close> is its exact value, \<open>spec_cost_rounded\<close> the
  number that JavaScript computes for the formula as it is written.
\<close>

definition counter :: "int option \<Rightarrow> int" where
  "counter c = (case c of None \<Rightarrow> 0 | Some n \<Rightarrow> n)"

definition cached_counter :: "raw_usage \<Rightarrow> int" where
  "cached_counter u = (case prompt_tokens_details u of None \<Rightarrow> 0 | Some d \<Rightarrow> counter (cached_tokens d))"

definition spec_cost :: "int \<Rightarrow> int \<Rightarrow> int \<Rightarrow> ModelPricing \<Rightarrow> rat" where
  "spec_cost prompt completion cachedTok pricing =
     (let cached = min cachedTok prompt;
          billable = prompt - cached;
          cachedRate = (case cachedInput_price pricing of None \<Rightarrow> input_price pricing | Some r \<Rightarrow> r)
      in (of_int billable * input_price pricing + of_int cached * cachedRate
          + of_int completion * output_price pricing) / 1000000)"

definition spec_cost_rounded :: "int \<Rightarrow> int \<Rightarrow> int \<Rightarrow> ModelPricing \<Rightarrow> rat" where
  "spec_cost_rounded prompt completion cachedTok pricing =
     (let cached = min cachedTok prompt;
          billable = prompt - cached;
          cachedRate = (case cachedInput_price pricing of None \<Rightarrow> input_price pricing | Some r \<Rightarrow> r)
      in fl (fl (fl (fl (of_int billable * fl (input_price pricing)) + fl (of_int cached * fl cachedRate))
                 + fl (of_int completion * fl (output_price pricing)))
             / 1000000))"

definition usage_of :: "int \<Rightarrow> int \<Rightarrow> int \<Rightarrow> raw_usage" where
  "usage_of prompt completion cachedTok =
     \<lparr>prompt_tokens = Some prompt, completion_tokens = Some completion, total_tokens = None,
      prompt_tokens_details = Some \<lparr>cached_tokens = Some cachedTok\<rparr>\<rparr>"

section \<open>The agent orchestrator\<close>

text \<open>
  \<^verbatim>\<open>ActionSchema\<close>: the fourteen action shapes, each with its fields in the schema's
  order and the optional \<^verbatim>\<open>reason\<close> last.
\<close>

datatype AgentAction =
    Read_file string "int option" "int option" "string option"
  | Write_file string string "string option"
  | Append_file string string "string option"
  | Create_file string string "bool option" "string option"
  | Delete_file string "string option"
  | Replace_in_file string string string "bool option" "string option"
  | List_dir string "bool option" "bool option" "string option"
  | File_info string "string option"
  | Search_files string "string option" "string option"
  | Apply_patch string "string option"
  | Move_file string string "string option"
  | Rename_file string string "string option"
  | Shell_command string "string list" "string option"
  | Git "string list" "string option"

record AgentPlan =
  summary :: "string option"
  response :: "string option"
  actions :: "AgentAction list"

datatype phase = PlanPhase | FollowupPhase | RunPhase

text \<open>
  \<^verbatim>\<open>AgentEvent\<close>. The message of a usage event is \<^verbatim>\<open>formatUsageMessage\<close> of the usage it
  carries and is left out.
\<close>

datatype AgentEvent =
    EvPlan string
  | EvAction string
  | EvResult string
  | EvError string
  | EvInfo string
  | EvUsage phase UsageSummary

text \<open>
  \<^verbatim>\<open>DarellConfig\<close> as \<^verbatim>\<open>runAgent\<close> reads it, and \<^verbatim>\<open>RunAgentOptions\<close>. The confirmation
  callback (the caller's, or the interactive prompt that stands in for it) answers for an
  action; the event sink is the list of events of the run. Both return normally.
\<close>

record DarellConfig =
  cfg_apiKey :: "string option"
  cfg_baseUrl :: "string option"
  cfg_organization :: "string option"
  cfg_model :: "string option"
  cfg_autoApprove :: "bool option"
  cfg_allowOutsideRoot :: "bool option"
  cfg_pricing :: "(string \<rightharpoonup> ModelPricing) option"

record RunAgentOptions =
  opt_task :: string
  opt_root :: string
  opt_config :: DarellConfig
  opt_autoApprove :: "bool option"
  opt_confirm :: "AgentAction \<Rightarrow> bool"
  opt_history :: "(string \<times> string) list option"

text \<open>
  The two collaborators that are libraries: the language-model transport
  (\<^verbatim>\<open>client.chat.completions.create\<close>) and the plan validator
  (\<^verbatim>\<open>PlanSchema.parse(JSON.parse(raw))\<close>, which fails with the text of its error).
\<close>

record chat_response =
  resp_usage :: "raw_usage option"
  resp_content :: "string option"

record services =
  chat :: "chat_request \<Rightarrow> error + chat_response"
  parse_plan :: "string \<Rightarrow> string + AgentPlan"

text \<open>
  The state of a run: the world, the events emitted so far, \<^verbatim>\<open>executionLog\<close>,
  \<^verbatim>\<open>runUsage\<close>, and (for stating which adapters ran) the actions dispatched so far.
\<close>

record run_state =
  rs_world :: world
  rs_events :: "AgentEvent list"
  executionLog :: "string list"
  runUsage :: UsageSummary
  dispatched :: "AgentAction list"

definition emit :: "AgentEvent \<Rightarrow> run_state \<Rightarrow> run_state" where
  "emit ev s = s\<lparr>rs_events := rs_events s @ [ev]\<rparr>"

definition createClient :: "DarellConfig \<Rightarrow> error + unit" where
  "createClient config =
     (if cfg_apiKey config = None \<or> cfg_apiKey config = Some [] then Inl MissingApiKey else Inr ())"

definition resolveModel :: "DarellConfig \<Rightarrow> string" where
  "resolveModel config =
     (case cfg_model config of None \<Rightarrow> ''gpt-4o-mini'' | Some m \<Rightarrow> if m = [] then ''gpt-4o-mini'' else m)"

definition buildPrompt :: "host \<Rightarrow> string \<Rightarrow> bool option \<Rightarrow> string" where
  "buildPrompt h r allow =
     join_with newline
       [''You are a careful local CLI agent.'',
        ''Operating system: '' @ platform h @ '' '' @ release h @ '' ('' @ arch h @ '').'',
        ''Return a JSON object with a response and an ordered list of actions.'',
        ''Available action types:'',
        ''read_file, write_file, append_file, create_file, delete_file, replace_in_file,'',
        ''list_dir, file_info, search_files, apply_patch, move_file, rename_file, shell_command, git.'',
        ''Use relative paths when possible and do not include unsafe or destructive commands.'',
        ''Do not include explanatory text outside JSON.'']"

fun action_type :: "AgentAction \<Rightarrow> string" where
  "action_type (Read_file p s e r) = ''read_file''"
| "action_type (Write_file p c r) = ''write_file''"
| "action_type (Append_file p c r) = ''append_file''"
| "action_type (Create_file p c ow r) = ''create_file''"
| "action_type (Delete_file p r) = ''delete_file''"
| "action_type (Replace_in_file p f t ra r) = ''replace_in_file''"
| "action_type (List_dir p rc ih r) = ''list_dir''"
| "action_type (File_info p r) = ''file_info''"
| "action_type (Search_files q g r) = ''search_files''"
| "action_type (Apply_patch pt r) = ''apply_patch''"
| "action_type (Move_file f t r) = ''move_file''"
| "action_type (Rename_file f t r) = ''rename_file''"
| "action_type (Shell_command c as r) = ''shell_command''"
| "action_type (Git as r) = ''git''"

text \<open>The fields the description reads, empty where the action has none.\<close>

fun action_path :: "AgentAction \<Rightarrow> string" where
  "action_path (Read_file p s e r) = p"
| "action_path (Write_file p c r) = p"
| "action_path (Append_file p c r) = p"
| "action_path (Create_file p c ow r) = p"
| "action_path (Delete_file p r) = p"
| "action_path (Replace_in_file p f t ra r) = p"
| "action_path (List_dir p rc ih r) = p"
| "action_path (File_info p r) = p"
| "action_path a = []"

fun action_from :: "AgentAction \<Rightarrow> string" where
  "action_from (Move_file f t r) = f"
| "action_from (Rename_file f t r) = f"
| "action_from a = []"

fun action_to :: "AgentAction \<Rightarrow> string" where
  "action_to (Move_file f t r) = t"
| "action_to (Rename_file f t r) = t"
| "action_to a = []"

fun action_command :: "AgentAction \<Rightarrow> string" where
  "action_command (Shell_command c as r) = c"
| "action_command a = []"

fun action_args :: "AgentAction \<Rightarrow> string" where
  "action_args (Shell_command c as r) = join_with '' '' as"
| "action_args (Git as r) = join_with '' '' as"
| "action_args a = []"

definition describe :: "AgentAction \<Rightarrow> string" where
  "describe a =
     trim (action_type a @ '': '' @ action_path a @ '' '' @ action_from a @ '' '' @ action_to a
           @ '' '' @ action_command a @ '' '' @ action_args a)"

text \<open>The \<^verbatim>\<open>switch\<close> of \<^verbatim>\<open>runAgent\<close>, with the defaults it supplies.\<close>

fun dispatch :: "host \<Rightarrow> ToolContext \<Rightarrow> AgentAction \<Rightarrow> world \<Rightarrow> (error + string) \<times> world" where
  "dispatch h ctx (Read_file p s e r) w = readFile h ctx p s e w"
| "dispatch h ctx (Write_file p c r) w = writeFile h ctx p c w"
| "dispatch h ctx (Append_file p c r) w = appendFile h ctx p c w"
| "dispatch h ctx (Create_file p c ow r) w =
     createFile h ctx p c (case ow of None \<Rightarrow> False | Some b \<Rightarrow> b) w"
| "dispatch h ctx (Delete_file p r) w = deleteFile h ctx p w"
| "dispatch h ctx (Replace_in_file p f t ra r) w =
     replaceInFile h ctx p f t (case ra of None \<Rightarrow> True | Some b \<Rightarrow> b) w"
| "dispatch h ctx (List_dir p rc ih r) w =
     listDir h ctx p (case rc of None \<Rightarrow> False | Some b \<Rightarrow> b)
       (case ih of None \<Rightarrow> False | Some b \<Rightarrow> b) w"
| "dispatch h ctx (File_info p r) w = fileInfo h ctx p w"
| "dispatch h ctx (Search_files q g r) w = searchFiles h ctx q g w"
| "dispatch h ctx (Apply_patch pt r) w = applyPatch h ctx pt w"
| "dispatch h ctx (Move_file f t r) w = moveFile h ctx f t w"
| "dispatch h ctx (Rename_file f t r) w = renameFile h ctx f t w"
| "dispatch h ctx (Shell_command c as r) w = runShell h ctx c as w"
| "dispatch h ctx (Git as r) w = runGit h ctx as w"

text \<open>
  \<^verbatim>\<open>String(error)\<close> of the error an adapter rejects with: the error's message after
  \<^verbatim>\<open>Error: \<close>. For a failed filesystem call the message is the code and the path.
\<close>

fun error_message :: "error \<Rightarrow> string" where
  "error_message (PathEscapesRoot t) = ''Path escapes root: '' @ t"
| "error_message (FileAlreadyExists t) = ''File already exists: '' @ t"
| "error_message (FsError code p) = code @ '': '' @ render p"
| "error_message (CommandFailed m) = m"
| "error_message (SpawnError m) = m"
| "error_message (OsError m) = m"
| "error_message MissingApiKey = ''Missing OpenAI API key. Run `darell configure` or set OPENAI_API_KEY.''"
| "error_message (TransportError m) = m"
| "error_message (PlanParseFailed m) = m"

definition String_of_error :: "error \<Rightarrow> string" where
  "String_of_error e = ''Error: '' @ error_message e"

text \<open>One turn of the loop \<^verbatim>\<open>for (const action of plan.actions)\<close>.\<close>

definition runAction :: "host \<Rightarrow> RunAgentOptions \<Rightarrow> ToolContext \<Rightarrow> AgentAction \<Rightarrow> run_state \<Rightarrow> run_state" where
  "runAction h options ctx action s =
     (let description = describe action;
          s1 = emit (EvAction description) s
      in if opt_autoApprove options \<noteq> Some True \<and> \<not> opt_confirm options action
         then (emit (EvInfo (''Skipped: '' @ description)) s1)
                \<lparr>executionLog := executionLog s1 @ [''SKIPPED '' @ description]\<rparr>
         else
           (case dispatch h ctx action (rs_world s1) of
              (Inr result, w1) \<Rightarrow>
                (emit (EvResult result) s1)
                  \<lparr>rs_world := w1, dispatched := dispatched s1 @ [action],
                    executionLog := executionLog s1 @ [''OK '' @ description @ newline @ result]\<rparr>
            | (Inl err, w1) \<Rightarrow>
                (emit (EvError (String_of_error err)) s1)
                  \<lparr>rs_world := w1, dispatched := dispatched s1 @ [action],
                    executionLog := executionLog s1
                       @ [''ERROR '' @ description @ newline @ String_of_error err]\<rparr>))"

fun runActions :: "host \<Rightarrow> RunAgentOptions \<Rightarrow> ToolContext \<Rightarrow> AgentAction list \<Rightarrow> run_state \<Rightarrow> run_state" where
  "runActions h options ctx [] s = s"
| "runActions h options ctx (action # rest) s =
     runActions h options ctx rest (runAction h options ctx action s)"

text \<open>
  The usage of one model call: emitted under its phase and added to \<^verbatim>\<open>runUsage\<close>
  (\<^verbatim>\<open>runUsage.cost = (runUsage.cost ?? 0) + usage.cost\<close> when the call has a cost, an
  addition of numbers).
\<close>

definition addUsage :: "UsageSummary \<Rightarrow> UsageSummary \<Rightarrow> UsageSummary" where
  "addUsage run u =
     run\<lparr>promptTokens := promptTokens run + promptTokens u,
         completionTokens := completionTokens run + completionTokens u,
         totalTokens := totalTokens run + totalTokens u,
         cachedTokens := cachedTokens run + cachedTokens u,
         cost := (case cost u of
                    None \<Rightarrow> cost run
                  | Some c \<Rightarrow> Some (fl ((case cost run of None \<Rightarrow> 0 | Some r \<Rightarrow> r) + c)))\<rparr>"

definition recordUsage :: "phase \<Rightarrow> UsageSummary option \<Rightarrow> run_state \<Rightarrow> run_state" where
  "recordUsage ph usage s =
     (case usage of
        None \<Rightarrow> s
      | Some u \<Rightarrow> (emit (EvUsage ph u) s)\<lparr>runUsage := addUsage (runUsage s) u\<rparr>)"

definition finishRun :: "run_state \<Rightarrow> run_state" where
  "finishRun s = (if totalTokens (runUsage s) > 0 then emit (EvUsage RunPhase (runUsage s)) s else s)"

definition planRequest :: "host \<Rightarrow> RunAgentOptions \<Rightarrow> string \<Rightarrow> chat_request" where
  "planRequest h options m =
     \<lparr>req_model = m,
      req_messages =
        (''system'', buildPrompt h (opt_root options) (cfg_allowOutsideRoot (opt_config options)))
        # (case opt_history options of
             None \<Rightarrow> [(''user'', opt_task options)]
           | Some hist \<Rightarrow> if hist = [] then [(''user'', opt_task options)] else hist),
      req_json_object = True,
      req_temperature = 0\<rparr>"

definition followUpRequest :: "RunAgentOptions \<Rightarrow> string \<Rightarrow> string list \<Rightarrow> chat_request" where
  "followUpRequest options m entries =
     \<lparr>req_model = m,
      req_messages =
        [(''system'',
          join_with '' ''
            [''You are a concise CLI assistant.'',
             ''Summarize the outcome of the actions and answer the user request.'',
             ''If there were errors or skipped actions, mention them briefly.'']),
         (''user'',
          ''User request: '' @ opt_task options @ newline @ newline @ ''Action log:'' @ newline
          @ join_with (newline @ newline) entries)],
      req_json_object = False,
      req_temperature = 2 / 10\<rparr>"

definition initialState :: "string \<Rightarrow> world \<Rightarrow> run_state" where
  "initialState m w =
     \<lparr>rs_world = w, rs_events = [], executionLog = [],
      runUsage = \<lparr>model = m, promptTokens = 0, completionTokens = 0, totalTokens = 0,
                  cachedTokens = 0, cost = None\<rparr>,
      dispatched = []\<rparr>"

text \<open>
  \<^verbatim>\<open>runAgent\<close>: the error that ends the run, if any, and the state reached.
\<close>

definition summarize :: "services \<Rightarrow> RunAgentOptions \<Rightarrow> string \<Rightarrow> run_state \<Rightarrow> error option \<times> run_state" where
  "summarize sv options m s =
     (if length (executionLog s) > 0
      then (case chat sv (followUpRequest options m (executionLog s)) of
              Inl e \<Rightarrow> (Some e, s)
            | Inr followUp \<Rightarrow>
                let s1 = recordUsage FollowupPhase
                           (summarizeUsage m (resp_usage followUp) (cfg_pricing (opt_config options))) s;
                    text = (case resp_content followUp of None \<Rightarrow> [] | Some c \<Rightarrow> trim c)
                in (None, finishRun (if text \<noteq> [] then emit (EvResult text) s1 else s1)))
      else (None, finishRun s))"

definition runAgent :: "host \<Rightarrow> services \<Rightarrow> RunAgentOptions \<Rightarrow> world \<Rightarrow> error option \<times> run_state" where
  "runAgent h sv options w =
     (let m = resolveModel (opt_config options);
          s0 = initialState m w
      in (case createClient (opt_config options) of
            Inl e \<Rightarrow> (Some e, s0)
          | Inr client \<Rightarrow>
              (let s1 = emit (EvInfo (''Using model '' @ m)) s0
               in (case chat sv (planRequest h options m) of
                     Inl e \<Rightarrow> (Some e, s1)
                   | Inr rsp \<Rightarrow>
                       (let s2 = recordUsage PlanPhase
                                   (summarizeUsage m (resp_usage rsp)
                                      (cfg_pricing (opt_config options))) s1;
                            raw = (case resp_content rsp of None \<Rightarrow> [] | Some c \<Rightarrow> c)
                        in (case parse_plan sv raw of
                              Inl err \<Rightarrow>
                                (Some (PlanParseFailed
                                         (''Failed to parse plan: '' @ err @ newline @ ''Raw: '' @ raw)),
                                 s2)
                            | Inr plan \<Rightarrow>
                                (let s3 = emit (EvPlan (case summary plan of
                                                         None \<Rightarrow> ''Plan ready''
                                                       | Some t \<Rightarrow> if t = [] then ''Plan ready'' else t))
                                            s2;
                                     s4 = (case response plan of
                                             None \<Rightarrow> s3
                                           | Some t \<Rightarrow> if t = [] then s3 else emit (EvResult t) s3);
                                     ctx = \<lparr>ctx_root = opt_root options, allowOutsideRoot = Some True\<rparr>;
                                     s5 = runActions h options ctx (actions plan) s4
                                 in summarize sv options m s5)))))))"

text \<open>
  The usage summaries that contribute to the run total: those emitted under the phases
  plan and followup.
\<close>

fun contributing :: "AgentEvent list \<Rightarrow> UsageSummary list" where
  "contributing [] = []"
| "contributing (EvUsage ph u # evs) = (if ph = RunPhase then contributing evs else u # contributing evs)"
| "contributing (ev # evs) = contributing evs"

fun run_usages :: "AgentEvent list \<Rightarrow> UsageSummary list" where
  "run_usages [] = []"
| "run_usages (EvUsage ph u # evs) = (if ph = RunPhase then u # run_usages evs else run_usages evs)"
| "run_usages (ev # evs) = run_usages evs"

definition priced_costs :: "UsageSummary list \<Rightarrow> rat list" where
  "priced_costs us = List.map_filter cost us"

section \<open>A concrete host and workspace\<close>

text \<open>
  A POSIX host whose child processes exit with code 0 and print nothing, and a workspace
  \<^verbatim>\<open>/w\<close> holding the files \<^verbatim>\<open>notes.txt\<close>, \<^verbatim>\<open>log.txt\<close> and \<^verbatim>\<open>t.txt\<close> and the directory
  \<^verbatim>\<open>src\<close>.
\<close>

definition example_host :: host where
  "example_host =
     \<lparr>homedir = ''/home/u'', cwd = ''/w'', tmpdir = ''/tmp'', now = ''0'',
      platform = ''linux'', release = ''6'', arch = ''x64'',
      run_process = (\<lambda>c m. (ProcClose (Some 0) [] [], m)),
      os_rename = (\<lambda>a b m. Inl (OsError ''rename'')),
      os_walk = (\<lambda>p r i m. Inr []),
      os_stat = (\<lambda>t p m. Inl (OsError ''stat'')),
      os_scan = (\<lambda>p q m. Inr [])\<rparr>"

text \<open>
  A host whose process runner reports how it was called: through the shell or directly,
  with which command and which arguments.
\<close>

definition probe_host :: host where
  "probe_host =
     example_host\<lparr>run_process :=
       (\<lambda>c m. (ProcClose (Some 0)
                 ((if sp_shell c then ''shell: '' else ''direct: '') @ sp_command c
                  @ concat (map (\<lambda>a. '' '' @ a) (sp_args c))) [], m))\<rparr>"

definition example_files :: fs where
  "example_files =
     [[''w''] \<mapsto> Dir, [''w'', ''src''] \<mapsto> Dir, [''w'', ''notes.txt''] \<mapsto> File ''old'',
      [''w'', ''log.txt''] \<mapsto> File ''ab-ab-ab'', [''w'', ''t.txt''] \<mapsto> File ''aabb'']"

definition example_world :: world where
  "example_world = \<lparr>files = example_files, spawned = []\<rparr>"

definition confined :: ToolContext where
  "confined = \<lparr>ctx_root = ''/w'', allowOutsideRoot = Some False\<rparr>"

section \<open>Occurrences of a search string\<close>

text \<open>
  The search string occurs in a text when it starts at some position of it;
  \<open>occurrences\<close> counts the matches that a scan from the left finds, a match consuming
  the characters it covers.
\<close>

fun occurs :: "string \<Rightarrow> string \<Rightarrow> bool" where
  "occurs f [] = (f = [])"
| "occurs f (c # cs) = (prefix f (c # cs) \<or> occurs f cs)"

fun occurrences :: "string \<Rightarrow> string \<Rightarrow> nat" where
  "occurrences f [] = 0"
| "occurrences f (c # cs) =
     (if prefix f (c # cs) then Suc (occurrences f (drop (length f - 1) cs))
      else occurrences f cs)"

text \<open>
  Search string and replacement overlap when a non-empty end of one is a beginning of the
  other, or when one of them, being non-empty, occurs inside the other.
\<close>

definition no_overlap :: "string \<Rightarrow> string \<Rightarrow> bool" where
  "no_overlap f r =
     (\<not> list_ex (\<lambda>x. x \<noteq> [] \<and> prefix x f) (suffixes r)
      \<and> \<not> list_ex (\<lambda>x. x \<noteq> [] \<and> suffix x f) (prefixes r)
      \<and> \<not> (r \<noteq> [] \<and> occurs r f)
      \<and> \<not> (f \<noteq> [] \<and> occurs f r))"

text \<open>The text that \<^verbatim>\<open>split\<close> followed by \<^verbatim>\<open>join\<close> builds, as one scan.\<close>

fun replace_scan :: "string \<Rightarrow> string \<Rightarrow> string \<Rightarrow> string" where
  "replace_scan f r [] = []"
| "replace_scan f r (c # cs) =
     (if prefix f (c # cs) then r @ replace_scan f r (drop (length f - 1) cs)
      else c # replace_scan f r cs)"

section \<open>Notions for stating the orchestrator's properties\<close>

text \<open>
  An action is approved when the run auto-approves or the confirmation callback says
  yes. A log entry belongs to an action when it is one of the three entries the loop
  writes for it.
\<close>

definition approved :: "RunAgentOptions \<Rightarrow> AgentAction \<Rightarrow> bool" where
  "approved options a = (opt_autoApprove options = Some True \<or> opt_confirm options a)"

definition entry_of :: "AgentAction \<Rightarrow> string \<Rightarrow> bool" where
  "entry_of a e =
     (e = ''SKIPPED '' @ describe a
      \<or> prefix (''OK '' @ describe a @ newline) e
      \<or> prefix (''ERROR '' @ describe a @ newline) e)"

text \<open>
  The sum of usage summaries, as the specification words it: the token counts added up,
  and the costs of those summaries that have one (no cost when none has). Costs being
  numbers, their sum \<open>number_sum\<close> is taken with the addition of numbers, in the order
  of the summaries.
\<close>

definition number_sum :: "rat list \<Rightarrow> rat" where
  "number_sum cs = foldl (\<lambda>acc c. fl (acc + c)) 0 cs"

definition total_of :: "string \<Rightarrow> UsageSummary list \<Rightarrow> UsageSummary" where
  "total_of m us =
     \<lparr>model = m,
      promptTokens = sum_list (map promptTokens us),
      completionTokens = sum_list (map completionTokens us),
      totalTokens = sum_list (map totalTokens us),
      cachedTokens = sum_list (map cachedTokens us),
      cost = (if priced_costs us = [] then None else Some (number_sum (priced_costs us)))\<rparr>"

text \<open>
  A run on the example workspace: the model \<^verbatim>\<open>gpt-4.1\<close>, a transport that reports usage
  for both calls, a confirmation callback that declines deletions.
\<close>

definition example_config :: DarellConfig where
  "example_config =
     \<lparr>cfg_apiKey = Some ''sk-test'', cfg_baseUrl = None, cfg_organization = None,
      cfg_model = Some ''gpt-4.1'', cfg_autoApprove = None, cfg_allowOutsideRoot = None,
      cfg_pricing = None\<rparr>"

definition example_options :: RunAgentOptions where
  "example_options =
     \<lparr>opt_task = ''tidy up'', opt_root = ''/w'', opt_config = example_config,
      opt_autoApprove = None,
      opt_confirm = (\<lambda>a. action_type a \<noteq> ''delete_file''),
      opt_history = None\<rparr>"

definition example_services :: "AgentAction list \<Rightarrow> services" where
  "example_services plan =
     \<lparr>chat = (\<lambda>req. if req_json_object req
                     then Inr \<lparr>resp_usage = Some (usage_of 1000 200 0), resp_content = Some ''{}''\<rparr>
                     else Inr \<lparr>resp_usage = Some (usage_of 300 50 0), resp_content = Some ''Done.''\<rparr>),
      parse_plan = (\<lambda>raw. Inr \<lparr>summary = None, response = None, actions = plan\<rparr>)\<rparr>"

text \<open>
  The invariant of a run before its last step: no run-phase usage event has been emitted,
  and \<^verbatim>\<open>runUsage\<close> is the sum of the usage summaries emitted so far.
\<close>

definition usage_inv :: "string \<Rightarrow> run_state \<Rightarrow> bool" where
  "usage_inv m s = (run_usages (rs_events s) = []
                    \<and> runUsage s = total_of m (contributing (rs_events s)))"

section \<open>Properties of the rounding of numbers\<close>

lemma round_even_error: "\<bar>of_int (round_even x) - x\<bar> \<le> 1 / 2"
proof -
  have "of_int \<lfloor>x\<rfloor> \<le> x" "x < of_int \<lfloor>x\<rfloor> + 1" by linarith+
  then show ?thesis by (auto simp: round_even_def Let_def)
qed

lemma round_even_of_int [simp]: "round_even (of_int k) = k"
  by (simp add: round_even_def)

lemma log2_floor_bounds:
  assumes "0 < x"
  shows "2 powi (log2_floor x) \<le> x \<and> x < 2 powi (log2_floor x + 1)"
proof -
  obtain p q where pq: "quotient_of x = (p, q)" by (cases "quotient_of x")
  have q: "0 < q" using pq by (rule quotient_of_denom_pos)
  have x: "x = of_int p / of_int q" using pq by (rule quotient_of_div)
  have p: "0 < p" using assms q x by (simp add: zero_less_divide_iff)
  let ?a = "bitlen p" and ?b = "bitlen q"
  have a1: "1 \<le> ?a" and b1: "1 \<le> ?b" using p q bitlen_eq_zero_iff[of p] bitlen_eq_zero_iff[of q]
      bitlen_nonneg[of p] bitlen_nonneg[of q] by linarith+
  have pa: "(2::rat) powi (?a - 1) \<le> of_int p" "of_int p < (2::rat) powi ?a"
  proof -
    have "(2::int) ^ nat (?a - 1) \<le> p" "p < (2::int) ^ nat ?a"
      using bitlen_bounds[OF p] by auto
    then have "rat_of_int (2 ^ nat (?a - 1)) \<le> of_int p" "rat_of_int p < of_int (2 ^ nat ?a)"
      by (simp_all only: of_int_le_iff of_int_less_iff)
    then show "(2::rat) powi (?a - 1) \<le> of_int p" "of_int p < (2::rat) powi ?a"
      using a1 by (simp_all add: power_int_def)
  qed
  have qb: "(2::rat) powi (?b - 1) \<le> of_int q" "of_int q < (2::rat) powi ?b"
  proof -
    have "(2::int) ^ nat (?b - 1) \<le> q" "q < (2::int) ^ nat ?b"
      using bitlen_bounds[OF q] by auto
    then have "rat_of_int (2 ^ nat (?b - 1)) \<le> of_int q" "rat_of_int q < of_int (2 ^ nat ?b)"
      by (simp_all only: of_int_le_iff of_int_less_iff)
    then show "(2::rat) powi (?b - 1) \<le> of_int q" "of_int q < (2::rat) powi ?b"
      using b1 by (simp_all add: power_int_def)
  qed
  have qpos: "(0::rat) < of_int q" using q by simp
  have up: "x < 2 powi (?a - ?b + 1)"
  proof -
    have "x < 2 powi ?a / of_int q" unfolding x using pa(2) qpos by (simp add: divide_strict_right_mono)
    also have "\<dots> \<le> 2 powi ?a / 2 powi (?b - 1)"
      using qb(1) qpos by (intro divide_left_mono) (auto intro!: mult_pos_pos)
    also have "\<dots> = 2 powi (?a - (?b - 1))" by (subst power_int_diff) auto
    also have "\<dots> = 2 powi (?a - ?b + 1)"
      by (rule arg_cong[of _ _ "\<lambda>k. 2 powi k"]) simp
    finally show ?thesis .
  qed
  have lo: "2 powi (?a - ?b - 1) \<le> x"
  proof -
    have "(2::rat) powi (?a - ?b - 1) = 2 powi ((?a - 1) - ?b)"
      by (rule arg_cong[of _ _ "\<lambda>k. 2 powi k"]) simp
    also have "\<dots> = 2 powi (?a - 1) / 2 powi ?b" by (subst power_int_diff) auto
    also have "\<dots> \<le> 2 powi (?a - 1) / of_int q"
      using qb(2) qpos by (intro divide_left_mono) (auto intro!: mult_pos_pos)
    also have "\<dots> \<le> x" unfolding x using pa(1) qpos by (simp add: divide_right_mono)
    finally show ?thesis .
  qed
  show ?thesis using up lo by (auto simp: log2_floor_def pq Let_def not_less)
qed

lemma pow2_less: "(2::rat) powi m < 2 powi n \<Longrightarrow> m < n"
proof (rule ccontr)
  assume "(2::rat) powi m < 2 powi n" "\<not> m < n"
  then have "(2::rat) powi n \<le> 2 powi m" by (intro power_int_increasing) auto
  then show False using \<open>(2::rat) powi m < 2 powi n\<close> by simp
qed

lemma floor_rat_numeral: "\<lfloor>numeral a / numeral b :: rat\<rfloor> = numeral a div numeral b"
  by (metis floor_divide_of_int_eq of_int_numeral)

lemma log2_floor_unique:
  assumes "0 < x" "2 powi L \<le> x" "x < 2 powi (L + 1)"
  shows "log2_floor x = L"
proof -
  let ?K = "log2_floor x"
  have b: "2 powi ?K \<le> x" "x < 2 powi (?K + 1)" using log2_floor_bounds[OF assms(1)] by auto
  have "(2::rat) powi L < 2 powi (?K + 1)" using assms(2) b(2) by linarith
  then have 1: "L < ?K + 1" by (rule pow2_less)
  have "(2::rat) powi ?K < 2 powi (L + 1)" using assms(3) b(1) by linarith
  then have 2: "?K < L + 1" by (rule pow2_less)
  show ?thesis using 1 2 by linarith
qed

lemma fl_at:
  assumes "0 < x" "2 powi L \<le> x" "x < 2 powi (L + 1)"
  shows "fl x = of_int (round_even (x / 2 powi (L - 52))) * 2 powi (L - 52)"
  using assms log2_floor_unique[OF assms] by (simp add: fl_def Let_def)

lemma fl_zero [simp]: "fl 0 = 0"
  by (simp add: fl_def)

lemma fl_error: "\<bar>fl x - x\<bar> \<le> \<bar>x\<bar> / 2 ^ 53"
proof (cases "x = 0")
  case True
  then show ?thesis by simp
next
  case False
  let ?a = "\<bar>x\<bar>"
  let ?L = "log2_floor ?a"
  let ?e = "?L - 52"
  let ?m = "?a / 2 powi ?e"
  let ?n = "round_even ?m"
  have a: "0 < ?a" using False by simp
  have pe: "(0::rat) < 2 powi ?e" by simp
  have lo: "2 powi ?L \<le> ?a" using log2_floor_bounds[OF a] by simp
  have split: "(2::rat) powi ?L = 2 powi ?e * 2 ^ 52"
  proof -
    have "(2::rat) powi ?L = 2 powi (?e + 52)" by (rule arg_cong[of _ _ "\<lambda>k. 2 powi k"]) simp
    also have "\<dots> = 2 powi ?e * 2 powi 52" by (subst power_int_add) auto
    finally show ?thesis by simp
  qed
  have f: "fl x = sgn x * (of_int ?n * 2 powi ?e)"
    using False by (simp add: fl_def Let_def mult.assoc)
  have "fl x - x = sgn x * (of_int ?n * 2 powi ?e) - sgn x * ?a"
    unfolding f by (simp add: mult_sgn_abs)
  also have "\<dots> = sgn x * (of_int ?n * 2 powi ?e - ?a)"
    by (simp add: right_diff_distrib)
  also have "of_int ?n * 2 powi ?e - ?a = (of_int ?n - ?m) * 2 powi ?e"
    by (simp add: algebra_simps)
  finally have "\<bar>fl x - x\<bar> = \<bar>of_int ?n - ?m\<bar> * 2 powi ?e"
    using False by (simp add: abs_mult abs_sgn_eq)
  also have "\<dots> \<le> (1 / 2) * 2 powi ?e"
    using round_even_error[of ?m] by (intro mult_right_mono) auto
  also have "\<dots> = 2 powi ?L / 2 ^ 53" unfolding split by simp
  also have "\<dots> \<le> ?a / 2 ^ 53" using lo by (simp add: divide_right_mono)
  finally show ?thesis .
qed

lemma fl_near:
  assumes "0 \<le> y"
  shows "near 1 (fl y) y"
proof -
  define d where "d = y / 2 ^ 53"
  have "\<bar>fl y - y\<bar> \<le> \<bar>y\<bar> / 2 ^ 53" by (rule fl_error)
  then have "\<bar>fl y - y\<bar> \<le> d" unfolding d_def abs_of_nonneg[OF assms] .
  then have b: "fl y - y \<le> d" "y - fl y \<le> d" by linarith+
  have e: "(1 - ulp_rel) ^ 1 * y = y - d" "(1 + ulp_rel) ^ 1 * y = y + d"
    by (simp_all add: d_def ulp_rel_def algebra_simps)
  show ?thesis unfolding near_def e using b by linarith
qed

lemma ulp_bounds: "0 \<le> 1 - ulp_rel" "1 - ulp_rel \<le> 1" "1 \<le> 1 + ulp_rel" "0 \<le> ulp_rel"
  by (simp_all add: ulp_rel_def)

lemma near_nonneg: "near k x y \<Longrightarrow> 0 \<le> y \<Longrightarrow> 0 \<le> x"
proof -
  assume n: "near k x y" and y: "0 \<le> y"
  have "0 \<le> (1 - ulp_rel) ^ k * y" using y ulp_bounds(1) by simp
  then show ?thesis using n by (simp add: near_def)
qed

lemma near_fl:
  assumes "near k x y" "0 \<le> y"
  shows "near (Suc k) (fl x) y"
proof -
  have x: "0 \<le> x" using assms by (rule near_nonneg)
  have f: "(1 - ulp_rel) * x \<le> fl x" "fl x \<le> (1 + ulp_rel) * x"
    using fl_near[OF x] by (simp_all add: near_def)
  have "(1 - ulp_rel) * ((1 - ulp_rel) ^ k * y) \<le> (1 - ulp_rel) * x"
    using assms(1) ulp_bounds(1) by (intro mult_left_mono) (simp_all add: near_def)
  moreover have "(1 + ulp_rel) * x \<le> (1 + ulp_rel) * ((1 + ulp_rel) ^ k * y)"
    using assms(1) ulp_bounds by (intro mult_left_mono) (simp_all add: near_def)
  ultimately show ?thesis using f by (simp add: near_def mult.assoc)
qed

lemma near_mult:
  assumes "near j a b" "near k c d" "0 \<le> b" "0 \<le> d"
  shows "near (j + k) (a * c) (b * d)"
proof -
  have a: "0 \<le> a" and c: "0 \<le> c" using assms near_nonneg by blast+
  have lo: "((1 - ulp_rel) ^ j * b) * ((1 - ulp_rel) ^ k * d) \<le> a * c"
    using assms a c ulp_bounds(1) by (intro mult_mono) (simp_all add: near_def)
  have hi: "a * c \<le> ((1 + ulp_rel) ^ j * b) * ((1 + ulp_rel) ^ k * d)"
    using assms a c ulp_bounds by (intro mult_mono) (simp_all add: near_def)
  show ?thesis using lo hi by (simp add: near_def power_add algebra_simps)
qed

lemma near_div:
  assumes "near k a b" "0 < c"
  shows "near k (a / c) (b / c)"
proof -
  have "((1 - ulp_rel) ^ k * b) / c \<le> a / c" "a / c \<le> ((1 + ulp_rel) ^ k * b) / c"
    using assms by (simp_all add: near_def divide_right_mono)
  then show ?thesis by (simp add: near_def)
qed

lemma near_mono:
  assumes "near j x y" "j \<le> k" "0 \<le> y"
  shows "near k x y"
proof -
  have "(1 - ulp_rel) ^ k \<le> (1 - ulp_rel) ^ j"
    using assms(2) ulp_bounds by (intro power_decreasing) auto
  then have lo: "(1 - ulp_rel) ^ k * y \<le> (1 - ulp_rel) ^ j * y"
    using assms(3) by (rule mult_right_mono)
  have "(1 + ulp_rel) ^ j \<le> (1 + ulp_rel) ^ k"
    using assms(2) ulp_bounds by (intro power_increasing) auto
  then have hi: "(1 + ulp_rel) ^ j * y \<le> (1 + ulp_rel) ^ k * y"
    using assms(3) by (rule mult_right_mono)
  show ?thesis using assms(1) lo hi by (simp add: near_def)
qed

lemma near_add:
  assumes "near k a b" "near k c d"
  shows "near k (a + c) (b + d)"
  using assms by (simp add: near_def algebra_simps add_mono)

lemma near_6_bound:
  assumes "near 6 x y" "0 \<le> y"
  shows "\<bar>x - y\<bar> \<le> y / 2 ^ 50"
proof -
  define d where "d = y / 2 ^ 50"
  have lo: "1 - 1 / 2 ^ 50 \<le> (1 - ulp_rel) ^ 6" by (simp add: ulp_rel_def power_divide)
  have hi: "(1 + ulp_rel) ^ 6 \<le> 1 + 1 / 2 ^ 50" by (simp add: ulp_rel_def power_divide)
  have e: "(1 - 1 / 2 ^ 50) * y = y - d" "(1 + 1 / 2 ^ 50) * y = y + d"
    by (simp_all add: d_def algebra_simps)
  have "(1 - 1 / 2 ^ 50) * y \<le> (1 - ulp_rel) ^ 6 * y" using lo assms(2) by (rule mult_right_mono)
  then have l: "y - d \<le> (1 - ulp_rel) ^ 6 * y" unfolding e .
  have "(1 + ulp_rel) ^ 6 * y \<le> (1 + 1 / 2 ^ 50) * y" using hi assms(2) by (rule mult_right_mono)
  then have u: "(1 + ulp_rel) ^ 6 * y \<le> y + d" unfolding e .
  have "y - d \<le> x" using l assms(1) unfolding near_def by (rule_tac order_trans) auto
  moreover have "x \<le> y + d" using u assms(1) unfolding near_def by (rule_tac order_trans[rotated]) auto
  ultimately have "\<bar>x - y\<bar> \<le> d" by (simp add: abs_le_iff)
  then show ?thesis unfolding d_def .
qed

lemma fl_exact:
  assumes "\<bar>n\<bar> < 2 ^ 53"
  shows "fl (of_int n * 2 powi k) = of_int n * 2 powi k"
proof (cases "n = 0")
  case True
  then show ?thesis by simp
next
  case False
  define x where "x = rat_of_int n * 2 powi k"
  define e where "e = log2_floor \<bar>x\<bar> - 52"
  have ax: "\<bar>x\<bar> = of_int \<bar>n\<bar> * 2 powi k" by (simp add: x_def abs_mult)
  have a: "0 < \<bar>x\<bar>" using False by (simp add: x_def)
  have "2 powi (e + 52) \<le> \<bar>x\<bar>" using log2_floor_bounds[OF a] by (simp add: e_def)
  also have "\<bar>x\<bar> < 2 ^ 53 * 2 powi k"
  proof -
    have "rat_of_int \<bar>n\<bar> < of_int (2 ^ 53)" using assms by (simp only: of_int_less_iff)
    then show ?thesis unfolding ax by (intro mult_strict_right_mono) auto
  qed
  also have "\<dots> = 2 powi (53 + k)" by (subst power_int_add) auto
  finally have "e + 52 < 53 + k" by (rule pow2_less)
  then have ek: "0 \<le> k - e" by simp
  have "(2::rat) powi k = 2 powi ((k - e) + e)" by (rule arg_cong[of _ _ "\<lambda>k. 2 powi k"]) simp
  also have "\<dots> = 2 powi (k - e) * 2 powi e" by (subst power_int_add) auto
  also have "(2::rat) powi (k - e) = of_int (2 ^ nat (k - e))" using ek by (simp add: power_int_def)
  finally have k: "(2::rat) powi k = of_int (2 ^ nat (k - e)) * 2 powi e" .
  have pe: "(2::rat) powi e \<noteq> 0" by simp
  have "\<bar>x\<bar> = of_int (\<bar>n\<bar> * 2 ^ nat (k - e)) * 2 powi e"
    unfolding ax by (subst k) (simp only: of_int_mult mult.assoc)
  then have m: "\<bar>x\<bar> / 2 powi e = of_int (\<bar>n\<bar> * 2 ^ nat (k - e))"
    using pe by simp
  have x0: "x \<noteq> 0" using a by simp
  have "fl x = sgn x * of_int (round_even (\<bar>x\<bar> / 2 powi e)) * 2 powi e"
    using x0 by (simp add: fl_def Let_def e_def)
  also have "\<dots> = sgn x * (of_int (\<bar>n\<bar> * 2 ^ nat (k - e)) * 2 powi e)"
    unfolding m by (simp only: round_even_of_int mult.assoc)
  also have "\<dots> = sgn x * \<bar>x\<bar>"
    using \<open>\<bar>x\<bar> = of_int (\<bar>n\<bar> * 2 ^ nat (k - e)) * 2 powi e\<close> by simp
  also have "\<dots> = x" by (rule mult_sgn_abs)
  finally show ?thesis unfolding x_def .
qed

lemma fl_of_int: "\<bar>n\<bar> < 2 ^ 53 \<Longrightarrow> fl (of_int n) = of_int n"
  using fl_exact[of n 0] by simp

lemma fl_numeral: "(numeral v :: int) < 2 ^ 53 \<Longrightarrow> fl (numeral v) = numeral v"
  using fl_of_int[of "numeral v"] by simp

lemma fl_one [simp]: "fl 1 = 1"
  using fl_of_int[of 1] by simp

lemma near_refl: "near 0 x x"
  by (simp add: near_def)

text \<open>One term of the cost: a count times a price, divided by a million.\<close>

lemma term_near:
  assumes "0 \<le> n" "0 \<le> p"
  shows "near 3 (fl (fl (of_int n * fl p) / 1000000)) (of_int n * p / 1000000)"
proof -
  have n: "(0::rat) \<le> of_int n" using assms(1) by simp
  have "near (0 + 1) (of_int n * fl p) (of_int n * p)"
    using near_refl fl_near[OF assms(2)] n assms(2) by (rule near_mult)
  then have "near 1 (of_int n * fl p) (of_int n * p)" by simp
  then have "near (Suc 1) (fl (of_int n * fl p)) (of_int n * p)"
    using n assms(2) by (intro near_fl) simp_all
  then have "near (Suc 1) (fl (of_int n * fl p) / 1000000) (of_int n * p / 1000000)"
    by (rule near_div) simp
  then have "near (Suc (Suc 1)) (fl (fl (of_int n * fl p) / 1000000)) (of_int n * p / 1000000)"
    using n assms(2) by (intro near_fl) simp_all
  then show ?thesis by (simp add: numeral_3_eq_3)
qed

lemma cost_near:
  assumes "0 \<le> b" "0 \<le> c" "0 \<le> n" "0 \<le> p" "0 \<le> r" "0 \<le> q"
  shows "\<bar>fl (fl (fl (fl (of_int b * fl p) / 1000000) + fl (fl (of_int c * fl r) / 1000000))
              + fl (fl (of_int n * fl q) / 1000000))
          - (of_int b * p + of_int c * r + of_int n * q) / 1000000\<bar>
         \<le> (of_int b * p + of_int c * r + of_int n * q) / 1000000 / 2 ^ 50"
proof -
  let ?t1 = "fl (fl (of_int b * fl p) / 1000000)" and ?e1 = "of_int b * p / 1000000"
  let ?t2 = "fl (fl (of_int c * fl r) / 1000000)" and ?e2 = "of_int c * r / 1000000"
  let ?t3 = "fl (fl (of_int n * fl q) / 1000000)" and ?e3 = "of_int n * q / 1000000"
  have e: "0 \<le> ?e1" "0 \<le> ?e2" "0 \<le> ?e3" using assms by simp_all
  have n1: "near 3 ?t1 ?e1" using assms by (intro term_near)
  have n2: "near 3 ?t2 ?e2" using assms by (intro term_near)
  have n3: "near 3 ?t3 ?e3" using assms by (intro term_near)
  have "near 3 (?t1 + ?t2) (?e1 + ?e2)" using n1 n2 by (rule near_add)
  then have s12: "near (Suc 3) (fl (?t1 + ?t2)) (?e1 + ?e2)" using e by (intro near_fl) simp_all
  have "near (Suc 3) ?t3 ?e3" by (rule near_mono[OF n3 _ e(3)]) simp
  then have "near (Suc 3) (fl (?t1 + ?t2) + ?t3) (?e1 + ?e2 + ?e3)" using s12 near_add by blast
  moreover have e0: "0 \<le> ?e1 + ?e2 + ?e3" using e by simp
  ultimately have n5: "near (Suc (Suc 3)) (fl (fl (?t1 + ?t2) + ?t3)) (?e1 + ?e2 + ?e3)"
    by (rule near_fl)
  have "near 6 (fl (fl (?t1 + ?t2) + ?t3)) (?e1 + ?e2 + ?e3)"
    by (rule near_mono[OF n5 _ e0]) simp
  then have "\<bar>fl (fl (?t1 + ?t2) + ?t3) - (?e1 + ?e2 + ?e3)\<bar> \<le> (?e1 + ?e2 + ?e3) / 2 ^ 50"
    using e0 by (rule near_6_bound)
  then show ?thesis by (simp only: add_divide_distrib)
qed

text \<open>A rounded value is a number: rounding it again changes nothing.\<close>

lemma fl_minus: "fl (- x) = - fl x"
  by (simp add: fl_def Let_def)

lemma round_even_mono_int:
  assumes "of_int k \<le> x"
  shows "k \<le> round_even x"
proof -
  have "k \<le> \<lfloor>x\<rfloor>" using assms by (simp add: le_floor_iff)
  then show ?thesis by (auto simp: round_even_def Let_def)
qed

lemma round_even_le_int:
  assumes "x \<le> of_int k"
  shows "round_even x \<le> k"
proof (cases "x = of_int k")
  case True
  then show ?thesis by simp
next
  case False
  then have "x < of_int k" using assms by simp
  then have "\<lfloor>x\<rfloor> < k" by (simp add: floor_less_iff)
  then show ?thesis by (auto simp: round_even_def Let_def)
qed

lemma fl_idem_pos:
  assumes "0 < x"
  shows "fl (fl x) = fl x"
proof -
  define L where "L = log2_floor x"
  define e where "e = L - 52"
  define n where "n = round_even (x / 2 powi e)"
  have b: "2 powi L \<le> x" "x < 2 powi (L + 1)" using log2_floor_bounds[OF assms] by (simp_all add: L_def)
  have f: "fl x = of_int n * 2 powi e"
    using fl_at[OF assms b] by (simp add: n_def e_def)
  have pe: "(0::rat) < 2 powi e" by simp
  have "(2::rat) powi L = 2 powi (52 + e)" by (rule arg_cong[of _ _ "\<lambda>k. 2 powi k"]) (simp add: e_def)
  also have "\<dots> = 2 ^ 52 * 2 powi e" by (subst power_int_add) auto
  finally have l: "(2::rat) powi L = 2 ^ 52 * 2 powi e" .
  have "(2::rat) powi (L + 1) = 2 powi (53 + e)" by (rule arg_cong[of _ _ "\<lambda>k. 2 powi k"]) (simp add: e_def)
  also have "\<dots> = 2 ^ 53 * 2 powi e" by (subst power_int_add) auto
  finally have u: "(2::rat) powi (L + 1) = 2 ^ 53 * 2 powi e" .
  have "2 ^ 52 * 2 powi e \<le> x" using b(1) unfolding l .
  then have "(2::rat) ^ 52 \<le> x / 2 powi e" using pe by (simp add: le_divide_eq)
  then have "rat_of_int (2 ^ 52) \<le> x / 2 powi e" by simp
  then have lo: "2 ^ 52 \<le> n" unfolding n_def by (rule round_even_mono_int)
  have "x \<le> 2 ^ 53 * 2 powi e" using b(2) unfolding u by simp
  then have "x / 2 powi e \<le> (2::rat) ^ 53" using pe by (simp add: divide_le_eq)
  then have "x / 2 powi e \<le> rat_of_int (2 ^ 53)" by simp
  then have hi: "n \<le> 2 ^ 53" unfolding n_def by (rule round_even_le_int)
  show ?thesis
  proof (cases "n = 2 ^ 53")
    case True
    have "rat_of_int n * 2 powi e = of_int 1 * 2 powi (53 + e)"
      unfolding True by (subst power_int_add) auto
    moreover have "fl (of_int 1 * 2 powi (53 + e)) = of_int 1 * 2 powi (53 + e)"
      by (rule fl_exact) simp
    ultimately show ?thesis unfolding f by simp
  next
    case False
    then have "\<bar>n\<bar> < 2 ^ 53" using lo hi by simp
    then show ?thesis unfolding f by (rule fl_exact)
  qed
qed

lemma fl_idem: "fl (fl x) = fl x"
proof -
  consider "x = 0" | "0 < x" | "x < 0" by linarith
  then show ?thesis
  proof cases
    case 1
    then show ?thesis by simp
  next
    case 2
    then show ?thesis by (rule fl_idem_pos)
  next
    case 3
    then have "fl (fl (- x)) = fl (- x)" by (intro fl_idem_pos) simp
    then show ?thesis by (simp add: fl_minus)
  qed
qed

lemma fl_small: "fl (1 / 2) = 1 / 2" "fl (1 / 4) = 1 / 4" "fl (5 / 4) = 5 / 4"
  using fl_exact[of 1 "-1"] fl_exact[of 1 "-2"] fl_exact[of 5 "-2"] by simp_all

lemmas fl_eval =
  fl_at[where L = "-8"] fl_at[where L = "-9"] fl_at[where L = "-10"] fl_at[where L = "-11"]
  fl_at[where L = "-12"] fl_at[where L = "-15"] fl_at[where L = "-16"]
  round_even_def Let_def floor_rat_numeral fl_numeral fl_small

section \<open>Properties of path resolution within the root\<close>

lemma splitc_nonempty: "splitc d x \<noteq> []"
  by (induction x) (auto split: list.splits)

lemma splitc_no_sep: "s \<in> set (splitc d x) \<Longrightarrow> d \<notin> set s"
  by (induction x arbitrary: s) (auto split: list.splits if_splits)

lemma normalize_segs_clean:
  "clean acc \<Longrightarrow> \<forall>s \<in> set ss. sep \<notin> set s \<Longrightarrow> clean (normalize_segs False acc ss)"
proof (induction ss arbitrary: acc)
  case Nil
  then show ?case by (simp add: clean_def)
next
  case (Cons s ss)
  have tl: "clean (tl acc)" using Cons.prems(1) by (cases acc) (auto simp: clean_def)
  have cons: "s \<noteq> [] \<Longrightarrow> clean (s # acc)" using Cons.prems by (auto simp: clean_def)
  show ?case using Cons.IH[of acc] Cons.IH[OF tl] Cons.IH[of "s # acc"] Cons.prems cons
    by auto
qed

lemma resolve_raw_no_sep: "s \<in> set (resolve_raw c args) \<Longrightarrow> sep \<notin> set s"
  by (induction args) (auto dest: splitc_no_sep split: if_splits)

lemma path_resolve_clean: "clean (path_resolve c args)"
  unfolding path_resolve_def
  by (rule normalize_segs_clean) (auto simp: clean_def dest: resolve_raw_no_sep)

lemma render_flat: "p \<noteq> [] \<Longrightarrow> render p = flat p"
  unfolding render_def flat_def
  by (induction "[sep]" p rule: join_with.induct) auto

lemma seg_prefix:
  "sep \<notin> set r \<Longrightarrow> sep \<notin> set p \<Longrightarrow> Y = [] \<or> hd Y = sep \<Longrightarrow>
   prefix (r @ sep # X) (p @ Y) \<longleftrightarrow> r = p \<and> prefix (sep # X) Y"
proof (induction r arbitrary: p)
  case Nil
  then show ?case by (cases p) auto
next
  case (Cons a r)
  then show ?case by (cases p; cases Y) auto
qed

lemma flat_hd: "flat ps = [] \<or> hd (flat ps) = sep"
  by (cases ps) (auto simp: flat_def)

lemma flat_prefix:
  "clean rs \<Longrightarrow> clean ps \<Longrightarrow> prefix (flat rs @ [sep]) (flat ps) \<longleftrightarrow> strict_prefix rs ps"
proof (induction rs arbitrary: ps)
  case Nil
  then show ?case by (cases ps) (auto simp: flat_def)
next
  case (Cons r rs)
  show ?case
  proof (cases ps)
    case Nil
    then show ?thesis by (simp add: flat_def)
  next
    case (Cons p ps')
    have r: "sep \<notin> set r" and p: "sep \<notin> set p" and crs: "clean rs" and cps: "clean ps'"
      using Cons.prems Cons by (auto simp: clean_def)
    obtain X where X: "flat rs @ [sep] = sep # X"
      by (cases rs) (auto simp: flat_def)
    have "prefix (flat (r # rs) @ [sep]) (flat ps) \<longleftrightarrow> prefix (r @ sep # X) (p @ flat ps')"
      using X Cons by (simp add: flat_def)
    also have "\<dots> \<longleftrightarrow> r = p \<and> prefix (sep # X) (flat ps')"
      by (rule seg_prefix[OF r p flat_hd])
    also have "\<dots> \<longleftrightarrow> r = p \<and> strict_prefix rs ps'"
      using Cons.IH[OF crs cps] X by simp
    finally show ?thesis using Cons by (auto simp: strict_prefix_def)
  qed
qed

lemma seg_eq:
  "sep \<notin> set r \<Longrightarrow> sep \<notin> set p \<Longrightarrow> X = [] \<or> hd X = sep \<Longrightarrow> Y = [] \<or> hd Y = sep \<Longrightarrow>
   r @ X = p @ Y \<longleftrightarrow> r = p \<and> X = Y"
proof (induction r arbitrary: p)
  case Nil
  then show ?case by (cases p; cases X) auto
next
  case (Cons a r)
  then show ?case by (cases p; cases Y) auto
qed

lemma flat_inj: "clean rs \<Longrightarrow> clean ps \<Longrightarrow> flat rs = flat ps \<longleftrightarrow> rs = ps"
proof (induction rs arbitrary: ps)
  case Nil
  then show ?case by (cases ps) (auto simp: flat_def)
next
  case (Cons r rs)
  show ?case
  proof (cases ps)
    case Nil
    then show ?thesis by (simp add: flat_def)
  next
    case (Cons p ps')
    have r: "sep \<notin> set r" and p: "sep \<notin> set p" and crs: "clean rs" and cps: "clean ps'"
      using Cons.prems Cons by (auto simp: clean_def)
    have "flat (r # rs) = flat ps \<longleftrightarrow> r @ flat rs = p @ flat ps'"
      using Cons by (simp add: flat_def)
    also have "\<dots> \<longleftrightarrow> r = p \<and> flat rs = flat ps'"
      by (rule seg_eq[OF r p flat_hd flat_hd])
    finally show ?thesis using Cons.IH[OF crs cps] Cons by simp
  qed
qed

lemma flat_length: "clean p \<Longrightarrow> p \<noteq> [] \<Longrightarrow> 2 \<le> length (flat p)"
  by (cases p; cases "hd p") (auto simp: flat_def clean_def)

lemma flat_not_root:
  assumes "clean p" "p \<noteq> []"
  shows "flat p \<noteq> [sep]"
proof
  assume "flat p = [sep]"
  then have "length (flat p) = 1" by simp
  with flat_length[OF assms] show False by simp
qed

lemma render_inj: "clean rs \<Longrightarrow> clean ps \<Longrightarrow> render rs = render ps \<longleftrightarrow> rs = ps"
proof (cases "rs = []"; cases "ps = []")
  assume "clean rs" "clean ps" "rs \<noteq> []" "ps \<noteq> []"
  then show ?thesis by (simp add: render_flat flat_inj)
next
  assume "clean ps" "rs = []" "ps \<noteq> []"
  then show ?thesis using flat_not_root[of ps] by (auto simp: render_flat) (simp add: render_def)
next
  assume "clean rs" "rs \<noteq> []" "ps = []"
  then show ?thesis using flat_not_root[of rs] by (auto simp: render_flat) (simp add: render_def)
qed simp

lemma render_prefix:
  assumes "clean rs" "clean ps" "rs \<noteq> []"
  shows "prefix (render rs @ [sep]) (render ps) \<longleftrightarrow> nested_under rs ps"
proof (cases "ps = []")
  case True
  have "\<not> prefix (flat rs @ [sep]) [sep]"
    using flat_length[OF assms(1,3)] by (auto dest!: prefix_length_le)
  then show ?thesis using True assms by (simp add: render_flat nested_under_def) (simp add: render_def)
next
  case False
  then show ?thesis using assms by (simp add: render_flat flat_prefix nested_under_def)
qed

text \<open>
  For every root that does not resolve to the filesystem root, the resolution rejects a
  target exactly when its resolved path is neither the resolved root nor nested under it.
\<close>

lemma resolveWithinRoot_iff_not_nested:
  assumes "path_resolve (cwd h) [r] \<noteq> []"
  shows "resolveWithinRoot h r t False =
     (let resolved = path_resolve (cwd h) [r, expandHome h t]; nroot = path_resolve (cwd h) [r]
      in if resolved = nroot \<or> nested_under nroot resolved then Inr resolved
         else Inl (PathEscapesRoot t))"
  using assms
    render_prefix[OF path_resolve_clean path_resolve_clean assms, of "cwd h" "[r, expandHome h t]"]
    render_inj[OF path_resolve_clean path_resolve_clean, of "cwd h" "[r, expandHome h t]" "cwd h" "[r]"]
  by (auto simp: resolveWithinRoot_def Let_def)

lemma sibling_rejected_root_accepted:
  "resolveWithinRoot h ''/a/b'' ''../bc/x'' False = Inl (PathEscapesRoot ''../bc/x'')
   \<and> resolveWithinRoot h ''/a/b'' ''.'' False = Inr [''a'', ''b'']"
  by (simp add: resolveWithinRoot_def path_resolve_def expandHome_def render_def sep_def)

text \<open>
  Claim C2: with \<open>allowOutsideRoot = false\<close> the resolution fails with an escape error
  if and only if the resolved path is neither equal to the resolved root nor nested under
  it. The code misses the case of the root \<^verbatim>\<open>/\<close>: \<^verbatim>\<open>normalizedRoot + path.sep\<close> is then
  \<^verbatim>\<open>//\<close>, which no resolved path starts with, so a path nested under the root, here
  \<^verbatim>\<open>/etc/passwd\<close>, is rejected. This holds on every host.
\<close>

theorem resolveWithinRoot_root_slash_rejects_nested:
  "resolveWithinRoot h ''/'' ''etc/passwd'' False = Inl (PathEscapesRoot ''etc/passwd'')
   \<and> path_resolve (cwd h) [''/''] = []
   \<and> path_resolve (cwd h) [''/'', expandHome h ''etc/passwd''] = [''etc'', ''passwd'']
   \<and> nested_under (path_resolve (cwd h) [''/''])
        (path_resolve (cwd h) [''/'', expandHome h ''etc/passwd''])"
  by (simp add: resolveWithinRoot_def path_resolve_def expandHome_def render_def
      nested_under_def sep_def)

section \<open>Properties of the usage and cost accounting\<close>

text \<open>
  A dated variant of \<^verbatim>\<open>gpt-4o-mini\<close> is priced as \<^verbatim>\<open>gpt-4o-mini\<close>: in the list that
  \<^verbatim>\<open>find\<close> searches, \<^verbatim>\<open>gpt-4o-mini\<close> stands before \<^verbatim>\<open>gpt-4o\<close>.
\<close>

lemma resolvePricing_dated_mini:
  "resolvePricing ''gpt-4o-mini-2024-07-18'' None = map_of DEFAULT_PRICING ''gpt-4o-mini''
   \<and> longest_known_prefix ''gpt-4o-mini-2024-07-18'' = Some ''gpt-4o-mini''"
  by (simp add: resolvePricing_def normalizeModel_def toLowerCase_def trim_def lower_char_def
      is_space_def DEFAULT_PRICING_def PREFIX_ORDER_def longest_known_prefix_def)

text \<open>
  Claim C3: a model name without an exact entry is priced as the longest known model
  name that is a prefix of it. In the list that \<^verbatim>\<open>find\<close> searches, \<^verbatim>\<open>gpt-5.2\<close> stands
  before \<^verbatim>\<open>gpt-5.2-pro\<close>, so a dated variant of \<^verbatim>\<open>gpt-5.2-pro\<close> gets the price of
  \<^verbatim>\<open>gpt-5.2\<close> (1.75 and 14 dollars per million tokens) and not that of its longest known
  prefix \<^verbatim>\<open>gpt-5.2-pro\<close> (21 and 168).
\<close>

theorem resolvePricing_dated_pro_not_longest_prefix:
  "resolvePricing ''gpt-5.2-pro-2025-12-11'' None
     = Some \<lparr>input_price = 7 / 4, output_price = 14, cachedInput_price = Some (7 / 40)\<rparr>
   \<and> map_of DEFAULT_PRICING ''gpt-5.2-pro-2025-12-11'' = None
   \<and> longest_known_prefix ''gpt-5.2-pro-2025-12-11'' = Some ''gpt-5.2-pro''
   \<and> map_of DEFAULT_PRICING ''gpt-5.2-pro''
     = Some \<lparr>input_price = 21, output_price = 168, cachedInput_price = None\<rparr>"
  by (simp add: resolvePricing_def normalizeModel_def toLowerCase_def trim_def lower_char_def
      is_space_def DEFAULT_PRICING_def PREFIX_ORDER_def longest_known_prefix_def)

lemma summarizeUsage_None: "(summarizeUsage m usage ov = None) = (usage = None)"
  by (auto simp: summarizeUsage_def Let_def split: option.splits)

lemma summarizeUsage_unpriced:
  assumes "resolvePricing m ov = None"
  shows "map_option cost (summarizeUsage m (Some u) ov) = Some None"
  using assms by (simp add: summarizeUsage_def Let_def)

lemma summarizeUsage_cost:
  assumes "resolvePricing m ov = Some pricing"
    and "P = counter (prompt_tokens u)" and "N = counter (completion_tokens u)"
    and "C = cached_counter u"
    and "R = (case cachedInput_price pricing of None \<Rightarrow> input_price pricing | Some r \<Rightarrow> r)"
  shows "map_option cost (summarizeUsage m (Some u) ov)
         = Some (Some (fl (fl (fl (fl (of_int (max 0 (P - min C P)) * fl (input_price pricing)) / 1000000)
                               + fl (fl (of_int (min C P) * fl R) / 1000000))
                           + fl (fl (of_int N * fl (output_price pricing)) / 1000000))))"
  using assms
  by (simp add: summarizeUsage_def Let_def counter_def cached_counter_def split: option.splits)

text \<open>The cost that \<^verbatim>\<open>summarizeUsage\<close> returns is a number.\<close>

lemma summarizeUsage_cost_is_number:
  assumes "summarizeUsage m usage ov = Some s" "cost s = Some c"
  shows "fl c = c"
  using assms
  by (auto simp: summarizeUsage_def Let_def fl_idem split: option.splits)

lemma price_in_range_nonneg: "price_in_range p \<Longrightarrow> 0 \<le> p"
proof -
  assume "price_in_range p"
  then consider "p = 0" | "1 / 2 ^ 500 \<le> p" by (auto simp: price_in_range_def)
  then show ?thesis
  proof cases
    case 1
    then show ?thesis by simp
  next
    case 2
    have "(0::rat) \<le> 1 / 2 ^ 500" by simp
    then show ?thesis using 2 by (rule order_trans)
  qed
qed

lemma summarizeUsage_near:
  assumes r: "resolvePricing m ov = Some pricing"
    and t: "token_count (counter (prompt_tokens u))" "token_count (counter (completion_tokens u))"
      "token_count (cached_counter u)"
    and p: "price_in_range (input_price pricing)" "price_in_range (output_price pricing)"
      "case cachedInput_price pricing of None \<Rightarrow> True | Some r \<Rightarrow> price_in_range r"
  shows "\<exists>c. map_option cost (summarizeUsage m (Some u) ov) = Some (Some c)
           \<and> \<bar>c - spec_cost (counter (prompt_tokens u)) (counter (completion_tokens u))
                    (cached_counter u) pricing\<bar>
               \<le> spec_cost (counter (prompt_tokens u)) (counter (completion_tokens u))
                    (cached_counter u) pricing / 2 ^ 50"
proof -
  define P where "P = counter (prompt_tokens u)"
  define N where "N = counter (completion_tokens u)"
  define C where "C = cached_counter u"
  define R where "R = (case cachedInput_price pricing of None \<Rightarrow> input_price pricing | Some r \<Rightarrow> r)"
  define b where "b = P - min C P"
  define c where "c = min C P"
  have tc: "0 \<le> P" "0 \<le> N" "0 \<le> C" using t by (simp_all add: token_count_def P_def N_def C_def)
  have b: "0 \<le> b" "max 0 (P - min C P) = b" and c: "0 \<le> c" using tc by (simp_all add: b_def c_def)
  have pi: "0 \<le> input_price pricing" and po: "0 \<le> output_price pricing"
    using p(1,2) by (simp_all add: price_in_range_nonneg)
  have pr: "0 \<le> R"
  proof (cases "cachedInput_price pricing")
    case None
    then show ?thesis using pi by (simp add: R_def)
  next
    case (Some r)
    then show ?thesis using p(3) by (simp add: R_def price_in_range_nonneg)
  qed
  let ?c = "fl (fl (fl (fl (of_int b * fl (input_price pricing)) / 1000000)
                    + fl (fl (of_int c * fl R) / 1000000))
                + fl (fl (of_int N * fl (output_price pricing)) / 1000000))"
  have 1: "map_option cost (summarizeUsage m (Some u) ov) = Some (Some ?c)"
    using summarizeUsage_cost[OF r P_def N_def C_def R_def] unfolding b(2) c_def .
  have s: "spec_cost P N C pricing
           = (of_int b * input_price pricing + of_int c * R + of_int N * output_price pricing) / 1000000"
    by (simp add: spec_cost_def Let_def b_def c_def R_def)
  have "\<bar>?c - spec_cost P N C pricing\<bar> \<le> spec_cost P N C pricing / 2 ^ 50"
    unfolding s using b(1) c tc(2) pi pr po by (rule cost_near)
  then show ?thesis using 1 unfolding P_def N_def C_def by blast
qed

lemma summarizeUsage_two_dollars:
  assumes "resolvePricing m ov = Some pricing" "input_price pricing = 2"
  shows "map_option cost (summarizeUsage m (Some (usage_of 1000000 0 0)) ov) = Some (Some 2)"
  using assms
  by (simp add: summarizeUsage_cost[OF assms(1) refl refl refl refl] usage_of_def counter_def
      cached_counter_def fl_numeral)

lemma summarizeUsage_cached_half:
  assumes "resolvePricing m ov = Some pricing" "input_price pricing = 2"
    "cachedInput_price pricing = Some (1 / 2)"
  shows "map_option cost (summarizeUsage m (Some (usage_of 1000000 0 500000)) ov) = Some (Some (5 / 4))"
  using assms
  by (simp add: summarizeUsage_cost[OF assms(1) refl refl refl refl] usage_of_def counter_def
      cached_counter_def fl_numeral fl_small)

lemma gpt41_pricing:
  "resolvePricing ''gpt-4.1'' None
   = Some \<lparr>input_price = 2, output_price = 8, cachedInput_price = Some (1 / 2)\<rparr>"
  by (simp add: resolvePricing_def normalizeModel_def toLowerCase_def trim_def lower_char_def
      is_space_def DEFAULT_PRICING_def)

text \<open>The numbers that arise for 10 prompt tokens and 5 completion tokens on \<^verbatim>\<open>gpt-4.1\<close>.\<close>

lemma fl_values_10_5:
  "fl (1 / 50000) = 5902958103587057 / 295147905179352825856"
  "fl (5902958103587057 / 295147905179352825856) = 5902958103587057 / 295147905179352825856"
  "fl (1 / 25000) = 5902958103587057 / 147573952589676412928"
  "fl (17708874310761171 / 295147905179352825856) = 4427218577690293 / 73786976294838206464"
  "fl (3 / 50000) = 8854437155380585 / 147573952589676412928"
  by (simp_all add: fl_eval)

lemma cost_10_5:
  "map_option cost (summarizeUsage ''gpt-4.1'' (Some (usage_of 10 5 0)) None)
   = Some (Some (4427218577690293 / 73786976294838206464))"
  by (simp add: summarizeUsage_cost[OF gpt41_pricing refl refl refl refl] usage_of_def counter_def
      cached_counter_def fl_numeral fl_small fl_values_10_5)

text \<open>
  Claim C5, as amended: \<^verbatim>\<open>summarizeUsage\<close> returns null exactly when no usage counters
  were supplied. Otherwise it has no cost when no price resolves, and when a price
  resolves, for token counts and prices within range, it has a cost that is the formula
  of the specification (\<open>spec_cost\<close>: cached tokens capped at the prompt tokens, billable
  input the rest, the cached rate defaulting to the input rate) up to rounding: the two
  differ by at most the formula's value divided by \<open>2 ^ 50\<close>. A million prompt tokens at 2
  dollars per million cost exactly 2, and half a million cached tokens at 0.50 with half
  a million billable tokens cost exactly 1.25.
\<close>

theorem summarizeUsage_cost_up_to_rounding:
  "(summarizeUsage m usage ov = None) = (usage = None)
   \<and> (resolvePricing m ov = None \<longrightarrow> map_option cost (summarizeUsage m (Some u) ov) = Some None)
   \<and> (resolvePricing m ov = Some pricing \<longrightarrow>
        token_count (counter (prompt_tokens u)) \<longrightarrow> token_count (counter (completion_tokens u)) \<longrightarrow>
        token_count (cached_counter u) \<longrightarrow>
        price_in_range (input_price pricing) \<longrightarrow> price_in_range (output_price pricing) \<longrightarrow>
        (case cachedInput_price pricing of None \<Rightarrow> True | Some r \<Rightarrow> price_in_range r) \<longrightarrow>
        (\<exists>c. map_option cost (summarizeUsage m (Some u) ov) = Some (Some c)
            \<and> \<bar>c - spec_cost (counter (prompt_tokens u)) (counter (completion_tokens u))
                     (cached_counter u) pricing\<bar>
                \<le> spec_cost (counter (prompt_tokens u)) (counter (completion_tokens u))
                     (cached_counter u) pricing / 2 ^ 50))
   \<and> (resolvePricing m ov = Some pricing \<longrightarrow> input_price pricing = 2 \<longrightarrow>
        map_option cost (summarizeUsage m (Some (usage_of 1000000 0 0)) ov) = Some (Some 2))
   \<and> (resolvePricing m ov = Some pricing \<longrightarrow> input_price pricing = 2 \<longrightarrow>
        cachedInput_price pricing = Some (1 / 2) \<longrightarrow>
        map_option cost (summarizeUsage m (Some (usage_of 1000000 0 500000)) ov) = Some (Some (5 / 4)))"
  using summarizeUsage_None[of m usage ov] summarizeUsage_unpriced[of m ov u]
    summarizeUsage_near[of m ov pricing u] summarizeUsage_two_dollars[of m ov pricing]
    summarizeUsage_cached_half[of m ov pricing]
  by blast

text \<open>
  On \<^verbatim>\<open>gpt-4.1\<close>: a usage whose cached tokens (900) exceed the prompt (700), for which
  the formula gives 0.00275, and the two instances.
\<close>

theorem summarizeUsage_cost_up_to_rounding_witness:
  "resolvePricing ''gpt-4.1'' None
     = Some \<lparr>input_price = 2, output_price = 8, cachedInput_price = Some (1 / 2)\<rparr>
   \<and> spec_cost 700 300 900 \<lparr>input_price = 2, output_price = 8, cachedInput_price = Some (1 / 2)\<rparr>
       = 11 / 4000
   \<and> (\<exists>c. map_option cost (summarizeUsage ''gpt-4.1'' (Some (usage_of 700 300 900)) None)
             = Some (Some c)
          \<and> \<bar>c - 11 / 4000\<bar> \<le> 11 / 4000 / 2 ^ 50)
   \<and> map_option cost (summarizeUsage ''gpt-4.1'' (Some (usage_of 1000000 0 0)) None) = Some (Some 2)
   \<and> map_option cost (summarizeUsage ''gpt-4.1'' (Some (usage_of 1000000 0 500000)) None)
       = Some (Some (5 / 4))
   \<and> summarizeUsage ''gpt-4.1'' None None = None"
proof -
  let ?p = "\<lparr>input_price = 2, output_price = 8, cachedInput_price = Some (1 / 2)\<rparr>"
  have s: "spec_cost 700 300 900 ?p = 11 / 4000"
    by (simp add: spec_cost_def)
  have h: "token_count (counter (prompt_tokens (usage_of 700 300 900)))"
    "token_count (counter (completion_tokens (usage_of 700 300 900)))"
    "token_count (cached_counter (usage_of 700 300 900))"
    "price_in_range (input_price ?p)" "price_in_range (output_price ?p)"
    "case cachedInput_price ?p of None \<Rightarrow> True | Some r \<Rightarrow> price_in_range r"
    by (simp_all add: token_count_def price_in_range_def usage_of_def counter_def cached_counter_def)
  have c: "spec_cost (counter (prompt_tokens (usage_of 700 300 900)))
             (counter (completion_tokens (usage_of 700 300 900)))
             (cached_counter (usage_of 700 300 900)) ?p = 11 / 4000"
    using s by (simp add: usage_of_def counter_def cached_counter_def)
  note t = summarizeUsage_cost_up_to_rounding[of "''gpt-4.1''" None None "usage_of 700 300 900" ?p]
  have "\<exists>c. map_option cost (summarizeUsage ''gpt-4.1'' (Some (usage_of 700 300 900)) None)
             = Some (Some c)
          \<and> \<bar>c - 11 / 4000\<bar> \<le> 11 / 4000 / 2 ^ 50"
    using t gpt41_pricing h unfolding c by blast
  moreover have "map_option cost (summarizeUsage ''gpt-4.1'' (Some (usage_of 1000000 0 0)) None)
      = Some (Some 2)"
    using t gpt41_pricing by simp
  moreover have "map_option cost (summarizeUsage ''gpt-4.1'' (Some (usage_of 1000000 0 500000)) None)
      = Some (Some (5 / 4))"
    using t gpt41_pricing by simp
  moreover have "summarizeUsage ''gpt-4.1'' None None = None"
    using t by simp
  ultimately show ?thesis using gpt41_pricing s by blast
qed

text \<open>
  The cost is not the formula itself. For 10 prompt tokens and 5 completion tokens on
  \<^verbatim>\<open>gpt-4.1\<close> the formula gives 0.00006, and JavaScript computes for the formula as
  written the number nearest to it, 6e-05; \<^verbatim>\<open>summarizeUsage\<close>, which divides each of the
  three products by a million before adding them, returns the next number above,
  6.000000000000001e-05.
\<close>

theorem summarizeUsage_cost_differs_from_formula:
  "map_option cost (summarizeUsage ''gpt-4.1'' (Some (usage_of 10 5 0)) None)
     = Some (Some (4427218577690293 / 73786976294838206464))
   \<and> resolvePricing ''gpt-4.1'' None
       = Some \<lparr>input_price = 2, output_price = 8, cachedInput_price = Some (1 / 2)\<rparr>
   \<and> spec_cost 10 5 0 \<lparr>input_price = 2, output_price = 8, cachedInput_price = Some (1 / 2)\<rparr>
       = 3 / 50000
   \<and> spec_cost_rounded 10 5 0 \<lparr>input_price = 2, output_price = 8, cachedInput_price = Some (1 / 2)\<rparr>
       = 8854437155380585 / 147573952589676412928
   \<and> map_option cost (summarizeUsage ''gpt-4.1'' (Some (usage_of 10 5 0)) None)
       \<noteq> Some (Some (spec_cost 10 5 0
             \<lparr>input_price = 2, output_price = 8, cachedInput_price = Some (1 / 2)\<rparr>))
   \<and> map_option cost (summarizeUsage ''gpt-4.1'' (Some (usage_of 10 5 0)) None)
       \<noteq> Some (Some (spec_cost_rounded 10 5 0
             \<lparr>input_price = 2, output_price = 8, cachedInput_price = Some (1 / 2)\<rparr>))"
proof -
  have s: "spec_cost 10 5 0 \<lparr>input_price = 2, output_price = 8, cachedInput_price = Some (1 / 2)\<rparr>
       = 3 / 50000"
    by (simp add: spec_cost_def)
  have r: "spec_cost_rounded 10 5 0 \<lparr>input_price = 2, output_price = 8, cachedInput_price = Some (1 / 2)\<rparr>
       = 8854437155380585 / 147573952589676412928"
    by (simp add: spec_cost_rounded_def fl_numeral fl_small fl_values_10_5)
  show ?thesis unfolding s r cost_10_5 using gpt41_pricing by simp
qed
section \<open>Properties of the shell adapter\<close>

text \<open>
  Claim C10: a shell command goes through the system shell exactly when its argument
  list is empty and the command string holds a space; in every other case it is spawned
  directly with its argument list and no shell. The process that \<^verbatim>\<open>runShell\<close> starts is
  the one described by \<open>call\<close> below: it is what \<open>run_process\<close> receives, on the files as
  they are; the files after \<^verbatim>\<open>runShell\<close> are those that this process leaves, the result
  of \<^verbatim>\<open>runShell\<close> is read off the outcome of this process, and it is the one call added
  to the trace. The orchestrator hands the action's command and arguments to
  \<^verbatim>\<open>runShell\<close> as they are.
\<close>

theorem runShell_shell_exactly_when:
  "(let call = (if args = [] \<and> CHR '' '' \<in> set command
                then \<lparr>sp_command = command, sp_args = [], sp_cwd = Some (ctx_root ctx), sp_shell = True\<rparr>
                else \<lparr>sp_command = command, sp_args = args, sp_cwd = Some (ctx_root ctx), sp_shell = False\<rparr>)
    in files (snd (runShell h ctx command args w)) = snd (run_process h call (files w))
       \<and> fst (runShell h ctx command args w)
           = (case fst (run_process h call (files w)) of
                ProcError msg \<Rightarrow> Inl (SpawnError msg)
              | ProcClose code out err \<Rightarrow>
                  if code = Some 0
                  then Inr (if trim out = [] then ''Command completed'' else trim out)
                  else Inl (CommandFailed
                         (if trim err = []
                          then ''Command failed with code ''
                               @ (case code of None \<Rightarrow> ''null'' | Some c \<Rightarrow> show_int c)
                          else trim err)))
       \<and> spawned (snd (runShell h ctx command args w)) = spawned w @ [call]
       \<and> sp_shell call = (args = [] \<and> CHR '' '' \<in> set command)
       \<and> sp_args call = args)
   \<and> dispatch h ctx (Shell_command command args reason) w = runShell h ctx command args w"
  by (auto simp: runShell_def shell_call_def Let_def split: prod.splits proc_outcome.splits)

text \<open>
  On a host that reports how its process runner was called: a command with a space and
  no arguments goes through the shell; with an argument, or without a space, it is
  spawned directly.
\<close>

lemma runShell_probe:
  "fst (runShell probe_host confined ''echo hi'' [] example_world) = Inr ''shell: echo hi''"
  "fst (runShell probe_host confined ''echo'' [''hi''] example_world) = Inr ''direct: echo hi''"
  "fst (runShell probe_host confined ''echo hi'' [''x''] example_world) = Inr ''direct: echo hi x''"
  "fst (runShell probe_host confined ''ls'' [] example_world) = Inr ''direct: ls''"
  by (simp_all add: runShell_def shell_call_def probe_host_def example_host_def trim_def
      is_space_def)

section \<open>Properties of \<^verbatim>\<open>createFile\<close>\<close>

lemma mkdir_fold_existing:
  "list_all (\<lambda>q. node_at m q = Some Dir) qs \<Longrightarrow>
   fold (\<lambda>q m'. if node_at m' q = None then m'(q \<mapsto> Dir) else m') qs m = m"
  by (induction qs) auto

lemma mkdir_recursive_existing:
  assumes "list_all (\<lambda>q. node_at m q = Some Dir) (prefixes p)"
  shows "fs_mkdir_recursive p m = Inr m"
proof -
  have "\<not> list_ex (\<lambda>q. is_file (node_at m q)) (prefixes p)"
    using assms by (auto simp: list_all_iff list_ex_iff)
  then show ?thesis using assms by (simp add: fs_mkdir_recursive_def mkdir_fold_existing)
qed

lemma mkdir_fold_node:
  "node_at (fold (\<lambda>q m'. if node_at m' q = None then m'(q \<mapsto> Dir) else m') qs m) x
   = (if x \<in> set qs \<and> node_at m x = None then Some Dir else node_at m x)"
proof (induction qs arbitrary: m)
  case Nil
  then show ?case by simp
next
  case (Cons a qs)
  show ?case by (simp add: Cons.IH) (auto simp: node_at_def)
qed

lemma not_file_cases: "\<not> is_file n \<Longrightarrow> n = None \<or> n = Some Dir"
  by (cases n rule: is_file.cases) auto

lemma createFile_exists_no_overwrite:
  assumes "resolveCtx h ctx target = Inr p"
      and "fs_access p (files w)"
      and "list_all (\<lambda>q. node_at (files w) q = Some Dir) (prefixes (butlast p))"
  shows "createFile h ctx target content False w = (Inl (FileAlreadyExists target), w)"
  using assms by (simp add: createFile_def path_dirname_def mkdir_recursive_existing)

lemma createFile_overwrite_succeeds:
  assumes "resolveCtx h ctx target = Inr p"
      and nf: "\<not> list_ex (\<lambda>q. is_file (node_at (files w) q)) (prefixes (butlast p))"
      and nd: "node_at (files w) p \<noteq> Some Dir"
  shows "fst (createFile h ctx target content True w) = Inr (''Created '' @ target)
       \<and> files (snd (createFile h ctx target content True w)) p = Some (File content)
       \<and> spawned (snd (createFile h ctx target content True w)) = spawned w"
proof -
  let ?F = "\<lambda>q m'. if node_at m' q = None then m'(q \<mapsto> Dir) else m'"
  let ?m1 = "fold ?F (prefixes (butlast p)) (files w)"
  have ne: "p \<noteq> []" using nd by (auto simp: node_at_def)
  have mk: "fs_mkdir_recursive (butlast p) (files w) = Inr ?m1"
    using nf by (simp add: fs_mkdir_recursive_def)
  have "\<not> prefix p (butlast p)" using ne
    by (metis prefix_length_le length_butlast diff_less length_greater_0_conv less_one not_le)
  then have p1: "node_at ?m1 p = node_at (files w) p"
    by (simp add: mkdir_fold_node)
  have "\<not> is_file (node_at (files w) (butlast p))"
    using nf by (auto simp: list_ex_iff)
  then have par: "node_at ?m1 (butlast p) = Some Dir"
    using not_file_cases[of "node_at (files w) (butlast p)"]
    by (auto simp: mkdir_fold_node)
  have wr: "fs_writeFile p content ?m1 = Inr (?m1(p \<mapsto> File content))"
    using p1 par nd by (simp add: fs_writeFile_def)
  show ?thesis using assms(1) mk wr
    by (simp add: createFile_def path_dirname_def Let_def)
qed

text \<open>
  Claim C6, as amended: for a target that resolves to an existing path (whose ancestors
  are then directories), \<^verbatim>\<open>createFile\<close> with \<open>overwrite = false\<close> fails with
  \<^verbatim>\<open>File already exists\<close> and leaves the world as it was; with \<open>overwrite = true\<close>, for a
  target that resolves to a path that is not a directory and has no regular file among
  its ancestors, it succeeds and the file then holds exactly the supplied content.
\<close>

theorem createFile_overwrite_flag:
  assumes "resolveCtx h ctx target = Inr p"
  shows "(fs_access p (files w)
            \<and> list_all (\<lambda>q. node_at (files w) q = Some Dir) (prefixes (butlast p))
          \<longrightarrow> createFile h ctx target content False w = (Inl (FileAlreadyExists target), w))
       \<and> (\<not> list_ex (\<lambda>q. is_file (node_at (files w) q)) (prefixes (butlast p))
            \<and> node_at (files w) p \<noteq> Some Dir
          \<longrightarrow> fst (createFile h ctx target content True w) = Inr (''Created '' @ target)
              \<and> files (snd (createFile h ctx target content True w)) p = Some (File content)
              \<and> spawned (snd (createFile h ctx target content True w)) = spawned w)"
  using createFile_exists_no_overwrite[OF assms] createFile_overwrite_succeeds[OF assms]
  by blast

lemma resolve_notes:
  "resolveCtx example_host confined ''notes.txt'' = Inr [''w'', ''notes.txt'']"
  by (simp add: resolveCtx_def resolveWithinRoot_def confined_def example_host_def
      path_resolve_def expandHome_def render_def sep_def)

lemma resolve_src:
  "resolveCtx example_host confined ''src'' = Inr [''w'', ''src'']"
  by (simp add: resolveCtx_def resolveWithinRoot_def confined_def example_host_def
      path_resolve_def expandHome_def render_def sep_def)

text \<open>The file \<^verbatim>\<open>notes.txt\<close> of the example workspace, without and with the flag.\<close>

theorem createFile_overwrite_flag_witness:
  "createFile example_host confined ''notes.txt'' ''hello'' False example_world
     = (Inl (FileAlreadyExists ''notes.txt''), example_world)
   \<and> fst (createFile example_host confined ''notes.txt'' ''hello'' True example_world)
     = Inr ''Created notes.txt''
   \<and> files (snd (createFile example_host confined ''notes.txt'' ''hello'' True example_world))
        [''w'', ''notes.txt''] = Some (File ''hello'')"
  using createFile_overwrite_flag[OF resolve_notes, of example_world "''hello''"]
  by (simp add: example_world_def example_files_def fs_access_def node_at_def)

text \<open>
  The claim as written promises success for every target path when \<open>overwrite = true\<close>.
  On the existing directory \<^verbatim>\<open>src\<close> the write fails with \<^verbatim>\<open>EISDIR\<close>.
\<close>

theorem createFile_overwrite_directory_fails:
  "fst (createFile example_host confined ''src'' ''hello'' True example_world)
     = Inl (FsError ''EISDIR'' [''w'', ''src''])
   \<and> files (snd (createFile example_host confined ''src'' ''hello'' True example_world))
        [''w'', ''src''] = Some Dir"
  by (simp add: createFile_def resolve_src path_dirname_def fs_mkdir_recursive_def
      example_world_def example_files_def fs_access_def node_at_def fs_writeFile_def Let_def)
section \<open>Properties of \<^verbatim>\<open>replaceInFile\<close>\<close>

lemma occurs_iff: "occurs f s \<longleftrightarrow> (\<exists>i. prefix f (drop i s))"
proof (induction s)
  case Nil
  then show ?case by simp
next
  case (Cons c cs)
  show ?case
  proof
    assume "occurs f (c # cs)"
    then consider "prefix f (c # cs)" | "occurs f cs" by auto
    then show "\<exists>i. prefix f (drop i (c # cs))"
    proof cases
      case 1
      then have "prefix f (drop 0 (c # cs))" by simp
      then show ?thesis by blast
    next
      case 2
      then obtain i where "prefix f (drop i cs)" using Cons.IH by blast
      then have "prefix f (drop (Suc i) (c # cs))" by simp
      then show ?thesis by blast
    qed
  next
    assume "\<exists>i. prefix f (drop i (c # cs))"
    then obtain i where i: "prefix f (drop i (c # cs))" by blast
    show "occurs f (c # cs)"
    proof (cases i)
      case 0
      then show ?thesis using i by simp
    next
      case (Suc j)
      then have "prefix f (drop j cs)" using i by simp
      then show ?thesis using Cons.IH by auto
    qed
  qed
qed

lemma occurs_sublist: "occurs f s \<longleftrightarrow> sublist f s"
  by (induction s) (auto simp: sublist_Cons_right)

lemma split_on_nonempty: "split_on f s \<noteq> []"
  by (induction f s rule: split_on.induct) (auto split: list.splits)

lemma join_with_Cons: "xs \<noteq> [] \<Longrightarrow> join_with r (x # xs) = x @ r @ join_with r xs"
  by (cases xs) auto

lemma join_with_push: "join_with r ((c # p) # ps) = c # join_with r (p # ps)"
  by (cases ps) auto

lemma join_split_scan: "join_with r (split_on f s) = replace_scan f r s"
proof (induction f s rule: split_on.induct)
  case (1 f)
  then show ?case by simp
next
  case (2 f c cs)
  show ?case
  proof (cases "prefix f (c # cs)")
    case True
    then show ?thesis using 2(1) by (simp add: join_with_Cons split_on_nonempty)
  next
    case False
    obtain p ps where sp: "split_on f cs = p # ps"
      using split_on_nonempty[of f cs] by (cases "split_on f cs") auto
    then show ?thesis using False 2(2) by (simp add: join_with_push)
  qed
qed

lemma no_overlapD:
  assumes "no_overlap f r"
  shows "x \<noteq> [] \<Longrightarrow> suffix x r \<Longrightarrow> \<not> prefix x f"
    and "x \<noteq> [] \<Longrightarrow> prefix x r \<Longrightarrow> \<not> suffix x f"
    and "r \<noteq> [] \<Longrightarrow> \<not> sublist r f"
    and "f \<noteq> [] \<Longrightarrow> \<not> sublist f r"
  using assms by (auto simp: no_overlap_def list_ex_iff occurs_sublist)

lemma replacement_end_no_match:
  assumes "no_overlap f r" "f \<noteq> []" "x \<noteq> []" "suffix x r"
  shows "\<not> prefix f (x @ z)"
proof
  assume "prefix f (x @ z)"
  then consider "prefix f x" | us where "f = x @ us"
    by (auto simp: prefix_append)
  then show False
  proof cases
    case 1
    then have "sublist f x" by (rule prefix_imp_sublist)
    moreover have "sublist x r" using assms(4) by (rule suffix_imp_sublist)
    ultimately have "sublist f r" by (rule sublist_order.order.trans)
    then show False using no_overlapD(4)[OF assms(1,2)] by simp
  next
    case 2
    then have "prefix x f" by simp
    then show False using no_overlapD(1)[OF assms(1,3,4)] by simp
  qed
qed

lemma prefix_before_replacement:
  assumes "no_overlap f r" "r \<noteq> []" "suffix g f" "prefix g (a @ r @ b)"
  shows "prefix g a"
proof (rule ccontr)
  assume n: "\<not> prefix g a"
  then obtain us where g: "g = a @ us" and us: "prefix us (r @ b)"
    using assms(4) by (auto simp: prefix_append)
  have ne: "us \<noteq> []" using n g by auto
  have sf: "suffix us f" using g assms(3) by (metis suffix_appendD)
  from us consider "prefix us r" | vs where "us = r @ vs"
    by (auto simp: prefix_append)
  then show False
  proof cases
    case 1
    then show False using no_overlapD(2)[OF assms(1) ne] sf by simp
  next
    case 2
    then have "sublist r us" by (metis prefixI prefix_imp_sublist)
    moreover have "sublist us f" using sf by (rule suffix_imp_sublist)
    ultimately have "sublist r f" by (rule sublist_order.order.trans)
    then show False using no_overlapD(3)[OF assms(1,2)] by simp
  qed
qed

lemma scan_prefix_transfer:
  "no_overlap f r \<Longrightarrow> r \<noteq> [] \<Longrightarrow> suffix g f \<Longrightarrow> prefix g (replace_scan f r s) \<Longrightarrow> prefix g s"
proof (induction f r s arbitrary: g rule: replace_scan.induct)
  case (1 f r)
  then show ?case by simp
next
  case (2 f r c cs)
  show ?case
  proof (cases "prefix f (c # cs)")
    case True
    then have "prefix g ([] @ r @ replace_scan f r (drop (length f - 1) cs))"
      using 2(6) by simp
    then have "prefix g []" using prefix_before_replacement[OF 2(3) 2(4) 2(5)] by blast
    then show ?thesis by simp
  next
    case False
    show ?thesis
    proof (cases g)
      case Nil
      then show ?thesis by simp
    next
      case (Cons z g')
      then have "z = c" "prefix g' (replace_scan f r cs)"
        using False 2(6) by auto
      moreover have "suffix g' f" using 2(5) Cons by (auto dest: suffix_ConsD)
      ultimately show ?thesis using 2(2)[OF False 2(3) 2(4), of g'] Cons by simp
    qed
  qed
qed

lemma scan_no_occurrence:
  "f \<noteq> [] \<Longrightarrow> r \<noteq> [] \<Longrightarrow> no_overlap f r \<Longrightarrow> \<not> prefix f (drop i (replace_scan f r s))"
proof (induction f r s arbitrary: i rule: replace_scan.induct)
  case (1 f r)
  then show ?case by simp
next
  case (2 f r c cs)
  show ?case
  proof (cases "prefix f (c # cs)")
    case True
    show ?thesis
    proof (cases "i < length r")
      case True
      have "\<not> prefix f (drop i r @ replace_scan f r (drop (length f - 1) cs))"
        by (rule replacement_end_no_match[OF 2(5) 2(3)]) (use True in \<open>auto simp: suffix_drop\<close>)
      then show ?thesis using \<open>prefix f (c # cs)\<close> True by simp
    next
      case False
      then show ?thesis using \<open>prefix f (c # cs)\<close> 2(1)[OF True 2(3) 2(4) 2(5), of "i - length r"]
        by simp
    qed
  next
    case False
    show ?thesis
    proof (cases i)
      case 0
      have "\<not> prefix f (replace_scan f r (c # cs))"
        using scan_prefix_transfer[OF 2(5) 2(4), of f "c # cs"] False by auto
      then show ?thesis using 0 by simp
    next
      case (Suc j)
      then show ?thesis using False 2(2)[OF False 2(3) 2(4) 2(5), of j] by simp
    qed
  qed
qed

lemma replace_all_no_occurrence:
  assumes "f \<noteq> []" "r \<noteq> []" "no_overlap f r"
  shows "\<not> occurs f (replace_text raw f r True)"
  using scan_no_occurrence[OF assms] assms(1)
  by (simp add: replace_text_def js_split_def join_split_scan occurs_iff)

lemma get_substitution_plain: "CHR ''$'' \<notin> set r \<Longrightarrow> get_substitution m pre post r = r"
  by (induction m pre post r rule: get_substitution.induct) auto

lemma occurrences_replacement:
  "no_overlap f r \<Longrightarrow> f \<noteq> [] \<Longrightarrow> suffix x r \<Longrightarrow> occurrences f (x @ z) = occurrences f z"
proof (induction x)
  case Nil
  then show ?case by simp
next
  case (Cons a x)
  have "\<not> prefix f ((a # x) @ z)"
    by (rule replacement_end_no_match[OF Cons.prems(1,2) _ Cons.prems(3)]) simp
  moreover have "suffix x r" using Cons.prems(3) by (rule suffix_ConsD)
  ultimately show ?case using Cons by simp
qed

lemma find_first_counts:
  "f \<noteq> [] \<Longrightarrow> r \<noteq> [] \<Longrightarrow> no_overlap f r \<Longrightarrow> find_first f s = Some (pre, post) \<Longrightarrow>
   s = pre @ f @ post \<and> occurrences f s = Suc (occurrences f post)
   \<and> occurrences f (pre @ r @ post) = occurrences f post"
proof (induction f s arbitrary: pre rule: find_first.induct)
  case (1 f)
  then show ?case by simp
next
  case (2 f c cs)
  show ?case
  proof (cases "prefix f (c # cs)")
    case True
    then have pre: "pre = []" and post: "post = drop (length f) (c # cs)"
      using 2(5) by auto
    have d: "drop (length f) (c # cs) = drop (length f - 1) cs"
      using 2(2) by (cases f) auto
    have e: "c # cs = pre @ f @ post"
      using True pre post by (metis append_Nil prefixE append_eq_conv_conj)
    have o1: "occurrences f (c # cs) = Suc (occurrences f post)"
      using True post d by simp
    have o2: "occurrences f (pre @ r @ post) = occurrences f post"
      using pre occurrences_replacement[OF 2(4) 2(2), of r post] by simp
    show ?thesis using e o1 o2 by blast
  next
    case False
    then obtain pre' where ff: "find_first f cs = Some (pre', post)" and pre: "pre = c # pre'"
      using 2(5) by (auto split: option.splits)
    have ih: "cs = pre' @ f @ post" "occurrences f cs = Suc (occurrences f post)"
        "occurrences f (pre' @ r @ post) = occurrences f post"
      using 2(1)[OF False 2(2) 2(3) 2(4) ff] by blast+
    have "\<not> prefix f (c # pre' @ r @ post)"
    proof
      assume "prefix f (c # pre' @ r @ post)"
      then have "prefix f ((c # pre') @ r @ post)" by simp
      then have "prefix f (c # pre')"
        using prefix_before_replacement[OF 2(4) 2(3), of f "c # pre'" post] by simp
      then have "prefix f (c # pre' @ f @ post)" by (metis append_Cons prefix_prefix)
      then show False using False ih(1) by simp
    qed
    then have o2: "occurrences f (pre @ r @ post) = occurrences f post"
      using ih(3) pre by simp
    have o1: "occurrences f (c # cs) = Suc (occurrences f post)"
      using False ih(2) by simp
    have e: "c # cs = pre @ f @ post" using ih(1) pre by simp
    show ?thesis using e o1 o2 by blast
  qed
qed

lemma find_first_None: "f \<noteq> [] \<Longrightarrow> find_first f s = None \<Longrightarrow> \<not> occurs f s"
  by (induction f s rule: find_first.induct) (auto split: if_splits option.splits)

lemma replace_first_count:
  assumes "f \<noteq> []" "r \<noteq> []" "no_overlap f r" "CHR ''$'' \<notin> set r" "occurs f raw"
  shows "Suc (occurrences f (replace_text raw f r False)) = occurrences f raw"
proof -
  obtain pre post where ff: "find_first f raw = Some (pre, post)"
    using find_first_None[OF assms(1), of raw] assms(5) by (cases "find_first f raw") auto
  have o1: "occurrences f raw = Suc (occurrences f post)"
    and o2: "occurrences f (pre @ r @ post) = occurrences f post"
    using find_first_counts[OF assms(1-3) ff] by blast+
  have "replace_text raw f r False = pre @ r @ post"
    using ff assms(4) by (simp add: replace_text_def js_replace_def get_substitution_plain)
  then show ?thesis using o1 o2 by simp
qed

lemma replaceInFile_content:
  assumes "resolveCtx h ctx target = Inr p"
      and "files w p = Some (File raw)" and "p \<noteq> []"
      and "node_at (files w) (butlast p) = Some Dir"
  shows "replaceInFile h ctx target search replace flag w
         = (Inr (''Replaced text in '' @ target),
            w\<lparr>files := (files w)(p \<mapsto> File (replace_text raw search replace flag))\<rparr>)"
  using assms
  by (simp add: replaceInFile_def fs_readFile_def fs_writeFile_def node_at_def)

text \<open>
  Claim C4, as amended: for a file whose content holds the non-empty search string, and
  a non-empty replacement that does not overlap the search string, replacing all matches
  leaves no occurrence of the search string; replacing the first match only leaves, when
  the replacement holds no dollar sign, one match less than before, the matches counted
  by a scan from the left.
\<close>

theorem replaceInFile_occurrences:
  assumes "resolveCtx h ctx target = Inr p"
      and "files w p = Some (File raw)" and "p \<noteq> []"
      and "node_at (files w) (butlast p) = Some Dir"
      and "search \<noteq> []" and "replace \<noteq> []" and "no_overlap search replace"
      and "occurs search raw"
  shows "files (snd (replaceInFile h ctx target search replace True w)) p
           = Some (File (replace_text raw search replace True))
       \<and> \<not> occurs search (replace_text raw search replace True)
       \<and> files (snd (replaceInFile h ctx target search replace False w)) p
           = Some (File (replace_text raw search replace False))
       \<and> (CHR ''$'' \<notin> set replace \<longrightarrow>
            Suc (occurrences search (replace_text raw search replace False))
              = occurrences search raw)"
  using replaceInFile_content[OF assms(1-4)] replace_all_no_occurrence[OF assms(5-7)]
    replace_first_count[OF assms(5-7) _ assms(8)]
  by simp

lemma resolve_log:
  "resolveCtx example_host confined ''log.txt'' = Inr [''w'', ''log.txt'']"
  by (simp add: resolveCtx_def resolveWithinRoot_def confined_def example_host_def
      path_resolve_def expandHome_def render_def sep_def)

lemma resolve_t:
  "resolveCtx example_host confined ''t.txt'' = Inr [''w'', ''t.txt'']"
  by (simp add: resolveCtx_def resolveWithinRoot_def confined_def example_host_def
      path_resolve_def expandHome_def render_def sep_def)

text \<open>The file \<^verbatim>\<open>log.txt\<close> of the example workspace: three matches, then none, or two.\<close>

theorem replaceInFile_occurrences_witness:
  "files (snd (replaceInFile example_host confined ''log.txt'' ''ab'' ''X'' True example_world))
      [''w'', ''log.txt''] = Some (File ''X-X-X'')
   \<and> \<not> occurs ''ab'' ''X-X-X''
   \<and> files (snd (replaceInFile example_host confined ''log.txt'' ''ab'' ''X'' False example_world))
      [''w'', ''log.txt''] = Some (File ''X-ab-ab'')
   \<and> occurrences ''ab'' ''X-ab-ab'' = 2 \<and> occurrences ''ab'' ''ab-ab-ab'' = 3"
  using replaceInFile_occurrences[OF resolve_log, of example_world "''ab-ab-ab''" "''ab''" "''X''"]
  by (simp add: example_world_def example_files_def node_at_def replace_text_def js_split_def
      js_replace_def no_overlap_def suffix_to_prefix)

text \<open>
  The claim as written asks only that search string and replacement differ and do not
  overlap. With the empty replacement the text \<^verbatim>\<open>aabb\<close> becomes \<^verbatim>\<open>ab\<close>, in which the
  search string \<^verbatim>\<open>ab\<close> occurs again: one occurrence before and one after, with either
  setting of the flag.
\<close>

theorem replaceInFile_empty_replacement_leaves_occurrence:
  "files example_world [''w'', ''t.txt''] = Some (File ''aabb'')
   \<and> occurs ''ab'' ''aabb'' \<and> occurrences ''ab'' ''aabb'' = 1
   \<and> files (snd (replaceInFile example_host confined ''t.txt'' ''ab'' [] True example_world))
        [''w'', ''t.txt''] = Some (File ''ab'')
   \<and> files (snd (replaceInFile example_host confined ''t.txt'' ''ab'' [] False example_world))
        [''w'', ''t.txt''] = Some (File ''ab'')
   \<and> occurs ''ab'' ''ab'' \<and> occurrences ''ab'' ''ab'' = 1
   \<and> ''ab'' \<noteq> [] \<and> no_overlap ''ab'' []"
  by (simp add: no_overlap_def replaceInFile_def resolve_t fs_readFile_def fs_writeFile_def node_at_def
      example_world_def example_files_def replace_text_def js_split_def js_replace_def)

text \<open>
  With the flag off the replacement is a template of \<^verbatim>\<open>String.prototype.replace\<close>, with
  the flag on it is literal text.
\<close>

lemma replace_first_dollar_pattern:
  "replace_text ''ab-ab'' ''ab'' ''$&$&'' False = ''abab-ab''
   \<and> replace_text ''ab-ab'' ''ab'' ''$&$&'' True = ''$&$&-$&$&''"
  by (simp add: replace_text_def js_split_def js_replace_def)

section \<open>Properties of the action loop\<close>

lemma runActions_append:
  "runActions h options ctx (xs @ ys) s = runActions h options ctx ys (runActions h options ctx xs s)"
  by (induction xs arbitrary: s) auto

lemma runAction_declined:
  assumes "\<not> approved options a"
  shows "runAction h options ctx a s =
         s\<lparr>rs_events := rs_events s @ [EvAction (describe a), EvInfo (''Skipped: '' @ describe a)],
           executionLog := executionLog s @ [''SKIPPED '' @ describe a]\<rparr>"
  using assms by (simp add: runAction_def approved_def emit_def Let_def)

lemma runAction_failed:
  assumes "approved options a" and "dispatch h ctx a (rs_world s) = (Inl err, w1)"
  shows "runAction h options ctx a s =
         s\<lparr>rs_world := w1,
           rs_events := rs_events s @ [EvAction (describe a), EvError (String_of_error err)],
           executionLog := executionLog s @ [''ERROR '' @ describe a @ newline @ String_of_error err],
           dispatched := dispatched s @ [a]\<rparr>"
  using assms by (auto simp: runAction_def approved_def emit_def Let_def)

lemma runAction_log:
  "\<exists>e. executionLog (runAction h options ctx a s) = executionLog s @ [e] \<and> entry_of a e"
  by (auto simp: runAction_def emit_def Let_def entry_of_def split: prod.splits sum.splits)

lemma runActions_log:
  "\<exists>es. executionLog (runActions h options ctx xs s) = executionLog s @ es \<and> list_all2 entry_of xs es"
proof (induction xs arbitrary: s)
  case Nil
  then show ?case by simp
next
  case (Cons a xs)
  obtain e where e: "executionLog (runAction h options ctx a s) = executionLog s @ [e]" "entry_of a e"
    using runAction_log by blast
  obtain es where es: "executionLog (runActions h options ctx xs (runAction h options ctx a s))
      = executionLog (runAction h options ctx a s) @ es" "list_all2 entry_of xs es"
    using Cons.IH by blast
  have "executionLog (runActions h options ctx (a # xs) s) = executionLog s @ (e # es)"
    using e es by simp
  moreover have "list_all2 entry_of (a # xs) (e # es)" using e es by simp
  ultimately show ?case by blast
qed

lemma runActions_log_entries:
  "take (length (executionLog s)) (executionLog (runActions h options ctx xs s)) = executionLog s
   \<and> list_all2 entry_of xs (drop (length (executionLog s)) (executionLog (runActions h options ctx xs s)))"
  using runActions_log[of h options ctx xs s] by auto

lemma runAction_dispatched:
  "dispatched (runAction h options ctx a s) = dispatched s @ (if approved options a then [a] else [])"
  by (auto simp: runAction_def emit_def Let_def approved_def split: prod.splits sum.splits)

lemma runActions_dispatched:
  "dispatched (runActions h options ctx xs s) = dispatched s @ filter (approved options) xs"
  by (induction xs arbitrary: s) (auto simp: runAction_dispatched)

text \<open>
  Claim C7: when the adapter of an approved action raises an error, the loop catches it,
  appends exactly one \<^verbatim>\<open>ERROR\<close> entry that carries the error's message, and goes on with
  the rest of the plan from the state the failed adapter left: every later action gets
  its own log entry in the plan's order, and every later approved action is dispatched.
\<close>

theorem adapter_error_logged_run_continues:
  assumes "approved options a"
      and "s1 = runActions h options ctx pre s"
      and "dispatch h ctx a (rs_world s1) = (Inl err, w1)"
      and "final = runActions h options ctx (pre @ a # post) s"
  shows "final = runActions h options ctx post
           (s1\<lparr>rs_world := w1,
               rs_events := rs_events s1 @ [EvAction (describe a), EvError (String_of_error err)],
               executionLog := executionLog s1
                  @ [''ERROR '' @ describe a @ newline @ String_of_error err],
               dispatched := dispatched s1 @ [a]\<rparr>)
       \<and> take (length (executionLog s1) + 1) (executionLog final)
           = executionLog s1 @ [''ERROR '' @ describe a @ newline @ String_of_error err]
       \<and> list_all2 entry_of post (drop (length (executionLog s1) + 1) (executionLog final))
       \<and> dispatched final = dispatched s1 @ a # filter (approved options) post"
proof -
  let ?sa = "s1\<lparr>rs_world := w1,
               rs_events := rs_events s1 @ [EvAction (describe a), EvError (String_of_error err)],
               executionLog := executionLog s1
                  @ [''ERROR '' @ describe a @ newline @ String_of_error err],
               dispatched := dispatched s1 @ [a]\<rparr>"
  have step: "runAction h options ctx a s1 = ?sa"
    by (rule runAction_failed[OF assms(1) assms(3)])
  have eq: "final = runActions h options ctx post ?sa"
    using assms(2,4) step by (simp add: runActions_append)
  have len: "length (executionLog ?sa) = length (executionLog s1) + 1" by simp
  have log: "take (length (executionLog ?sa)) (executionLog final) = executionLog ?sa"
      "list_all2 entry_of post (drop (length (executionLog ?sa)) (executionLog final))"
    using runActions_log_entries[of ?sa h options ctx post] eq by auto
  have d: "dispatched final = dispatched ?sa @ filter (approved options) post"
    using eq by (simp add: runActions_dispatched)
  show ?thesis using eq log d unfolding len by simp
qed

text \<open>
  Claim C8: an action that the confirmation callback declines, auto-approval being off,
  is never dispatched; the loop records exactly one \<^verbatim>\<open>SKIPPED\<close> entry for it, leaves the
  world (files and processes) as it was, and goes on with the rest of the plan.
\<close>

theorem declined_action_skipped_run_continues:
  assumes "opt_autoApprove options \<noteq> Some True" and "\<not> opt_confirm options a"
      and "s1 = runActions h options ctx pre s"
      and "final = runActions h options ctx (pre @ a # post) s"
  shows "final = runActions h options ctx post
           (s1\<lparr>rs_events := rs_events s1
                  @ [EvAction (describe a), EvInfo (''Skipped: '' @ describe a)],
               executionLog := executionLog s1 @ [''SKIPPED '' @ describe a]\<rparr>)
       \<and> rs_world (runAction h options ctx a s1) = rs_world s1
       \<and> dispatched (runAction h options ctx a s1) = dispatched s1
       \<and> executionLog (runAction h options ctx a s1) = executionLog s1 @ [''SKIPPED '' @ describe a]
       \<and> list_all2 entry_of post (drop (length (executionLog s1) + 1) (executionLog final))
       \<and> dispatched final = dispatched s1 @ filter (approved options) post"
proof -
  let ?sa = "s1\<lparr>rs_events := rs_events s1
                  @ [EvAction (describe a), EvInfo (''Skipped: '' @ describe a)],
               executionLog := executionLog s1 @ [''SKIPPED '' @ describe a]\<rparr>"
  have na: "\<not> approved options a" using assms(1,2) by (simp add: approved_def)
  have step: "runAction h options ctx a s1 = ?sa"
    by (rule runAction_declined[OF na])
  have eq: "final = runActions h options ctx post ?sa"
    using assms(3,4) step by (simp add: runActions_append)
  have len: "length (executionLog ?sa) = length (executionLog s1) + 1" by simp
  have log: "list_all2 entry_of post (drop (length (executionLog ?sa)) (executionLog final))"
    using runActions_log_entries[of ?sa h options ctx post] eq by auto
  have d: "dispatched final = dispatched ?sa @ filter (approved options) post"
    using eq by (simp add: runActions_dispatched)
  show ?thesis using eq log d step unfolding len by simp
qed

text \<open>Definitions unfolded when a run on the example workspace is evaluated.\<close>

lemmas eval_defs = approved_def example_options_def initialState_def createFile_def writeFile_def
  deleteFile_def resolveCtx_def resolveWithinRoot_def confined_def example_host_def path_resolve_def
  expandHome_def render_def sep_def path_dirname_def fs_mkdir_recursive_def fs_access_def
  fs_writeFile_def fs_rm_def node_at_def example_world_def example_files_def describe_def trim_def
  is_space_def newline_def String_of_error_def runAction_def emit_def Let_def

text \<open>
  A plan whose first action fails (the file exists already) and whose second action is
  carried out all the same.
\<close>

theorem adapter_error_logged_run_continues_witness:
  "executionLog (runActions example_host example_options confined
      [Create_file ''notes.txt'' ''x'' None None, Write_file ''b.txt'' ''y'' None]
      (initialState ''gpt-4.1'' example_world))
   = [''ERROR create_file: notes.txt'' @ newline @ ''Error: File already exists: notes.txt'',
      ''OK write_file: b.txt'' @ newline @ ''Wrote b.txt'']
   \<and> dispatched (runActions example_host example_options confined
      [Create_file ''notes.txt'' ''x'' None None, Write_file ''b.txt'' ''y'' None]
      (initialState ''gpt-4.1'' example_world))
   = [Create_file ''notes.txt'' ''x'' None None, Write_file ''b.txt'' ''y'' None]
   \<and> files (rs_world (runActions example_host example_options confined
      [Create_file ''notes.txt'' ''x'' None None, Write_file ''b.txt'' ''y'' None]
      (initialState ''gpt-4.1'' example_world))) [''w'', ''b.txt''] = Some (File ''y'')"
  using adapter_error_logged_run_continues[where options = example_options
      and a = "Create_file ''notes.txt'' ''x'' None None"
      and h = example_host and ctx = confined and pre = "[]"
      and s = "initialState ''gpt-4.1'' example_world"
      and ?s1.0 = "initialState ''gpt-4.1'' example_world"
      and err = "FileAlreadyExists ''notes.txt''" and ?w1.0 = example_world
      and post = "[Write_file ''b.txt'' ''y'' None]"
      and final = "runActions example_host example_options confined
        [Create_file ''notes.txt'' ''x'' None None, Write_file ''b.txt'' ''y'' None]
        (initialState ''gpt-4.1'' example_world)"]
  by (simp add: eval_defs)

text \<open>A plan whose first action, a deletion, is declined: the file stays.\<close>

theorem declined_action_skipped_run_continues_witness:
  "executionLog (runActions example_host example_options confined
      [Delete_file ''notes.txt'' None, Write_file ''b.txt'' ''y'' None]
      (initialState ''gpt-4.1'' example_world))
   = [''SKIPPED delete_file: notes.txt'', ''OK write_file: b.txt'' @ newline @ ''Wrote b.txt'']
   \<and> dispatched (runActions example_host example_options confined
      [Delete_file ''notes.txt'' None, Write_file ''b.txt'' ''y'' None]
      (initialState ''gpt-4.1'' example_world))
   = [Write_file ''b.txt'' ''y'' None]
   \<and> files (rs_world (runActions example_host example_options confined
      [Delete_file ''notes.txt'' None, Write_file ''b.txt'' ''y'' None]
      (initialState ''gpt-4.1'' example_world))) [''w'', ''notes.txt''] = Some (File ''old'')"
  using declined_action_skipped_run_continues[where options = example_options
      and a = "Delete_file ''notes.txt'' None"
      and h = example_host and ctx = confined and pre = "[]"
      and s = "initialState ''gpt-4.1'' example_world"
      and ?s1.0 = "initialState ''gpt-4.1'' example_world"
      and post = "[Write_file ''b.txt'' ''y'' None]"
      and final = "runActions example_host example_options confined
        [Delete_file ''notes.txt'' None, Write_file ''b.txt'' ''y'' None]
        (initialState ''gpt-4.1'' example_world)"]
  by (simp add: eval_defs)
section \<open>Properties of the run-level usage total\<close>

lemma contributing_append: "contributing (xs @ ys) = contributing xs @ contributing ys"
  by (induction xs rule: contributing.induct) auto

lemma run_usages_append: "run_usages (xs @ ys) = run_usages xs @ run_usages ys"
  by (induction xs rule: run_usages.induct) auto

lemma usage_inv_init: "usage_inv m (initialState m w)"
  by (simp add: usage_inv_def initialState_def total_of_def priced_costs_def map_filter_def
      number_sum_def)

lemma usage_inv_emit:
  assumes "usage_inv m s" and "contributing [ev] = []" and "run_usages [ev] = []"
  shows "usage_inv m (emit ev s)"
  using assms by (simp add: usage_inv_def emit_def contributing_append run_usages_append)

lemma number_sum_two:
  assumes "fl a = a"
  shows "number_sum [a] = a" and "number_sum [a, b] = fl (a + b)"
  using assms by (simp_all add: number_sum_def)

lemma total_of_snoc: "total_of m (us @ [u]) = addUsage (total_of m us) u"
  by (cases "cost u")
     (auto simp: total_of_def addUsage_def priced_costs_def map_filter_def number_sum_def)

lemma usage_inv_record:
  assumes "usage_inv m s" and "ph \<noteq> RunPhase"
  shows "usage_inv m (recordUsage ph u s)"
  using assms
  by (cases u)
     (auto simp: usage_inv_def recordUsage_def emit_def contributing_append run_usages_append
        total_of_snoc)

lemma runAction_usage:
  "contributing (rs_events (runAction h options ctx a s)) = contributing (rs_events s)
   \<and> run_usages (rs_events (runAction h options ctx a s)) = run_usages (rs_events s)
   \<and> runUsage (runAction h options ctx a s) = runUsage s"
  by (auto simp: runAction_def emit_def Let_def contributing_append run_usages_append
      split: prod.splits sum.splits)

lemma usage_inv_runActions:
  "usage_inv m s \<Longrightarrow> usage_inv m (runActions h options ctx xs s)"
proof (induction xs arbitrary: s)
  case Nil
  then show ?case by simp
next
  case (Cons a xs)
  have "usage_inv m (runAction h options ctx a s)"
    using Cons.prems runAction_usage[of h options ctx a s] by (simp add: usage_inv_def)
  then show ?case using Cons.IH by simp
qed

lemma finishRun_usage:
  assumes "usage_inv m s"
  shows "contributing (rs_events (finishRun s)) = contributing (rs_events s)
       \<and> run_usages (rs_events (finishRun s))
           = (if 0 < sum_list (map totalTokens (contributing (rs_events s)))
              then [total_of m (contributing (rs_events s))] else [])
       \<and> (0 < sum_list (map totalTokens (contributing (rs_events s))) \<longrightarrow>
            last (rs_events (finishRun s)) = EvUsage RunPhase (total_of m (contributing (rs_events s))))"
  using assms
  by (auto simp: usage_inv_def finishRun_def emit_def contributing_append run_usages_append
      total_of_def)

lemma summarize_usage:
  assumes "usage_inv m s" and "summarize sv options m s = (None, s')"
  shows "run_usages (rs_events s')
           = (if 0 < sum_list (map totalTokens (contributing (rs_events s')))
              then [total_of m (contributing (rs_events s'))] else [])
       \<and> (0 < sum_list (map totalTokens (contributing (rs_events s'))) \<longrightarrow>
            last (rs_events s') = EvUsage RunPhase (total_of m (contributing (rs_events s'))))"
proof (cases "length (executionLog s) > 0")
  case False
  then have "s' = finishRun s" using assms(2) by (simp add: summarize_def)
  then show ?thesis using finishRun_usage[OF assms(1)] by simp
next
  case True
  then obtain followUp where f: "chat sv (followUpRequest options m (executionLog s)) = Inr followUp"
    using assms(2) by (auto simp: summarize_def split: sum.splits)
  let ?s1 = "recordUsage FollowupPhase
               (summarizeUsage m (resp_usage followUp) (cfg_pricing (opt_config options))) s"
  let ?text = "(case resp_content followUp of None \<Rightarrow> [] | Some c \<Rightarrow> trim c)"
  let ?s2 = "(if ?text \<noteq> [] then emit (EvResult ?text) ?s1 else ?s1)"
  have i1: "usage_inv m ?s1" using assms(1) by (simp add: usage_inv_record)
  have i2: "usage_inv m ?s2" using i1 by (simp add: usage_inv_emit)
  have "s' = finishRun ?s2" using assms(2) True f by (simp add: summarize_def Let_def)
  then show ?thesis using finishRun_usage[OF i2] by simp
qed

lemma runAgent_usage:
  assumes "runAgent h sv options w = (None, s)"
  shows "run_usages (rs_events s)
           = (if 0 < sum_list (map totalTokens (contributing (rs_events s)))
              then [total_of (resolveModel (opt_config options)) (contributing (rs_events s))] else [])
       \<and> (0 < sum_list (map totalTokens (contributing (rs_events s))) \<longrightarrow>
            last (rs_events s)
              = EvUsage RunPhase (total_of (resolveModel (opt_config options)) (contributing (rs_events s))))"
proof -
  let ?m = "resolveModel (opt_config options)"
  let ?s1 = "emit (EvInfo (''Using model '' @ ?m)) (initialState ?m w)"
  obtain client where c: "createClient (opt_config options) = Inr client"
    using assms by (cases "createClient (opt_config options)") (auto simp: runAgent_def Let_def)
  obtain rsp where r: "chat sv (planRequest h options ?m) = Inr rsp"
    using assms c
    by (cases "chat sv (planRequest h options ?m)") (auto simp: runAgent_def Let_def)
  let ?s2 = "recordUsage PlanPhase
      (summarizeUsage ?m (resp_usage rsp) (cfg_pricing (opt_config options))) ?s1"
  let ?raw = "(case resp_content rsp of None \<Rightarrow> [] | Some c \<Rightarrow> c)"
  obtain plan where p: "parse_plan sv ?raw = Inr plan"
    using assms c r
    by (cases "parse_plan sv ?raw") (auto simp: runAgent_def Let_def)
  let ?s3 = "emit (EvPlan (case summary plan of None \<Rightarrow> ''Plan ready''
      | Some t \<Rightarrow> if t = [] then ''Plan ready'' else t)) ?s2"
  let ?s4 = "(case response plan of None \<Rightarrow> ?s3
      | Some t \<Rightarrow> if t = [] then ?s3 else emit (EvResult t) ?s3)"
  let ?s5 = "runActions h options
      \<lparr>ctx_root = opt_root options, allowOutsideRoot = Some True\<rparr> (actions plan) ?s4"
  have fin: "summarize sv options ?m ?s5 = (None, s)"
    using assms c r p by (simp add: runAgent_def Let_def cong: option.case_cong if_cong)
  have "usage_inv ?m ?s1" by (simp add: usage_inv_init usage_inv_emit)
  then have "usage_inv ?m ?s2" by (simp add: usage_inv_record)
  then have i3: "usage_inv ?m ?s3" by (simp add: usage_inv_emit)
  have "usage_inv ?m ?s4"
  proof (cases "response plan")
    case None
    then show ?thesis using i3 by simp
  next
    case (Some t)
    then show ?thesis using i3 by (simp add: usage_inv_emit)
  qed
  then have "usage_inv ?m ?s5" by (rule usage_inv_runActions)
  then show ?thesis using summarize_usage[OF _ fin] by simp
qed

lemma nonneg_sum_pos:
  assumes "\<forall>u \<in> set us. 0 \<le> totalTokens u"
  shows "(0 < sum_list (map totalTokens us)) = (sum_list (map totalTokens us) \<noteq> 0)"
proof -
  have "0 \<le> sum_list (map totalTokens us)"
    by (rule sum_list_nonneg) (use assms in auto)
  then show ?thesis by auto
qed

text \<open>
  Claim C9: at the end of a run (token counts being non-negative) the final usage event
  of phase run is emitted if and only if the accumulated token total is nonzero; it is
  then the last event, its prompt, completion, total and cached counts are the sums over
  the usage summaries of the phases plan and followup, and its cost is the sum of the
  costs of those summaries that have one, unset when none has. The costs are numbers and
  their sum is the sum of numbers (\<open>number_sum\<close>, which for the two calls of a run is the
  number nearest to the exact sum, see \<open>number_sum_two\<close> and
  \<open>summarizeUsage_cost_is_number\<close>).
\<close>

theorem run_usage_event_sums_contributions:
  assumes "runAgent h sv options w = (None, s)"
      and "\<forall>u \<in> set (contributing (rs_events s)). 0 \<le> totalTokens u"
  shows "run_usages (rs_events s)
           = (if sum_list (map totalTokens (contributing (rs_events s))) \<noteq> 0
              then [total_of (resolveModel (opt_config options)) (contributing (rs_events s))] else [])
       \<and> (sum_list (map totalTokens (contributing (rs_events s))) \<noteq> 0 \<longrightarrow>
            last (rs_events s)
              = EvUsage RunPhase (total_of (resolveModel (opt_config options)) (contributing (rs_events s))))"
  using runAgent_usage[OF assms(1)] nonneg_sum_pos[OF assms(2)] by simp

text \<open>The pieces of a run on the example workspace.\<close>

text \<open>
  The numbers that arise for the two calls: 0.0036 for the plan call, 0.001 for the
  follow-up call, 0.0046 for the run.
\<close>

lemma fl_values_run:
  "fl (1 / 500) = 1152921504606847 / 576460752303423488"
  "fl (1152921504606847 / 576460752303423488) = 1152921504606847 / 576460752303423488"
  "fl (1 / 625) = 7378697629483821 / 4611686018427387904"
  "fl (16602069666338597 / 4611686018427387904) = 4150517416584649 / 1152921504606846976"
  "fl (3 / 5000) = 5534023222112865 / 9223372036854775808"
  "fl (5534023222112865 / 9223372036854775808) = 5534023222112865 / 9223372036854775808"
  "fl (1 / 2500) = 7378697629483821 / 18446744073709551616"
  "fl (18446744073709551 / 18446744073709551616) = 1152921504606847 / 1152921504606846976"
  "fl (4150517416584649 / 1152921504606846976) = 4150517416584649 / 1152921504606846976"
  "fl (662929865148937 / 144115188075855872) = 662929865148937 / 144115188075855872"
  by (simp_all add: fl_eval)

lemma plan_usage:
  "summarizeUsage ''gpt-4.1'' (Some (usage_of 1000 200 0)) None
   = Some \<lparr>model = ''gpt-4.1'', promptTokens = 1000, completionTokens = 200,
          totalTokens = 1200, cachedTokens = 0, cost = Some (4150517416584649 / 1152921504606846976)\<rparr>"
  by (simp add: summarizeUsage_def usage_of_def gpt41_pricing fl_numeral fl_small fl_values_run)

lemma followup_usage:
  "summarizeUsage ''gpt-4.1'' (Some (usage_of 300 50 0)) None
   = Some \<lparr>model = ''gpt-4.1'', promptTokens = 300, completionTokens = 50,
          totalTokens = 350, cachedTokens = 0, cost = Some (1152921504606847 / 1152921504606846976)\<rparr>"
  by (simp add: summarizeUsage_def usage_of_def gpt41_pricing fl_numeral fl_small fl_values_run)

lemma example_model: "resolveModel (opt_config example_options) = ''gpt-4.1''"
  by (simp add: resolveModel_def example_options_def example_config_def)

lemma example_chat_plan:
  "chat (example_services plan) (planRequest h options m)
   = Inr \<lparr>resp_usage = Some (usage_of 1000 200 0), resp_content = Some ''{}''\<rparr>"
  by (simp add: example_services_def planRequest_def)

lemma example_chat_followup:
  "chat (example_services plan) (followUpRequest options m entries)
   = Inr \<lparr>resp_usage = Some (usage_of 300 50 0), resp_content = Some ''Done.''\<rparr>"
  by (simp add: example_services_def followUpRequest_def)

lemma example_parse:
  "parse_plan (example_services plan) raw = Inr \<lparr>summary = None, response = None, actions = plan\<rparr>"
  by (simp add: example_services_def)


lemma example_cfg:
  "resolveModel example_config = ''gpt-4.1''" "cfg_pricing example_config = None"
  "createClient example_config = Inr ()"
  by (simp_all add: resolveModel_def example_config_def createClient_def)

lemma example_write:
  "writeFile example_host \<lparr>ctx_root = ''/w'', allowOutsideRoot = Some True\<rparr> ''b.txt'' ''y'' example_world
   = (Inr ''Wrote b.txt'', example_world\<lparr>files := example_files([''w'', ''b.txt''] \<mapsto> File ''y'')\<rparr>)"
  by (simp add: eval_defs)

lemma example_write_outside:
  "writeFile example_host \<lparr>ctx_root = ''/w'', allowOutsideRoot = Some True\<rparr> ''../outside.txt'' ''x''
     example_world
   = (Inr ''Wrote ../outside.txt'', example_world\<lparr>files := example_files([''outside.txt''] \<mapsto> File ''x'')\<rparr>)"
  by (simp add: eval_defs)

lemma example_describe:
  "describe (Write_file ''b.txt'' ''y'' None) = ''write_file: b.txt''"
  "describe (Write_file ''../outside.txt'' ''x'' None) = ''write_file: ../outside.txt''"
  by (simp_all add: describe_def trim_def is_space_def)

lemma example_run_events:
  "fst (runAgent example_host (example_services [Write_file ''b.txt'' ''y'' None])
          example_options example_world) = None
   \<and> rs_events (snd (runAgent example_host (example_services [Write_file ''b.txt'' ''y'' None])
          example_options example_world))
     = [EvInfo ''Using model gpt-4.1'',
        EvUsage PlanPhase \<lparr>model = ''gpt-4.1'', promptTokens = 1000, completionTokens = 200,
          totalTokens = 1200, cachedTokens = 0, cost = Some (4150517416584649 / 1152921504606846976)\<rparr>,
        EvPlan ''Plan ready'',
        EvAction ''write_file: b.txt'',
        EvResult ''Wrote b.txt'',
        EvUsage FollowupPhase \<lparr>model = ''gpt-4.1'', promptTokens = 300, completionTokens = 50,
          totalTokens = 350, cachedTokens = 0, cost = Some (1152921504606847 / 1152921504606846976)\<rparr>,
        EvResult ''Done.'',
        EvUsage RunPhase \<lparr>model = ''gpt-4.1'', promptTokens = 1300, completionTokens = 250,
          totalTokens = 1550, cachedTokens = 0, cost = Some (662929865148937 / 144115188075855872)\<rparr>]"
  by (simp add: runAgent_def summarize_def example_options_def example_cfg example_chat_plan
      example_chat_followup example_parse plan_usage followup_usage initialState_def
      recordUsage_def finishRun_def addUsage_def emit_def runAction_def Let_def example_describe
      example_write trim_def is_space_def fl_values_run)

text \<open>A run with usage 1200 for the plan call and 350 for the follow-up call.\<close>

theorem run_usage_event_sums_contributions_witness:
  "fst (runAgent example_host (example_services [Write_file ''b.txt'' ''y'' None])
          example_options example_world) = None
   \<and> run_usages (rs_events (snd (runAgent example_host
          (example_services [Write_file ''b.txt'' ''y'' None]) example_options example_world)))
     = [\<lparr>model = ''gpt-4.1'', promptTokens = 1300, completionTokens = 250,
          totalTokens = 1550, cachedTokens = 0, cost = Some (662929865148937 / 144115188075855872)\<rparr>]
   \<and> map totalTokens (contributing (rs_events (snd (runAgent example_host
          (example_services [Write_file ''b.txt'' ''y'' None]) example_options example_world))))
     = [1200, 350]"
  using run_usage_event_sums_contributions[where h = example_host
      and sv = "example_services [Write_file ''b.txt'' ''y'' None]"
      and options = example_options and w = example_world
      and s = "snd (runAgent example_host (example_services [Write_file ''b.txt'' ''y'' None])
                 example_options example_world)"]
    example_run_events
  by (simp add: prod_eq_iff total_of_def priced_costs_def map_filter_def number_sum_def
      fl_values_run)

section \<open>The context the orchestrator hands to the adapters\<close>

text \<open>
  With \<open>allowOutsideRoot\<close> set in the context no target is ever rejected.
\<close>

lemma permissive_context_never_rejects:
  "resolveCtx h \<lparr>ctx_root = r, allowOutsideRoot = Some True\<rparr> target
   = Inr (path_resolve (cwd h) [r, expandHome h target])"
  by (simp add: resolveCtx_def resolveWithinRoot_def)

text \<open>
  Claim C1: in a run whose configuration does not enable the allow-outside-root flag, an
  action path that resolves outside the workspace root fails with an escape error before
  the filesystem is touched. \<^verbatim>\<open>runAgent\<close> builds its context with
  \<^verbatim>\<open>allowOutsideRoot: true\<close> whatever the configuration says: with the flag unset or
  false (any \<open>flag\<close>), the action \<^verbatim>\<open>write_file ../outside.txt\<close> in the workspace \<^verbatim>\<open>/w\<close> is
  logged as \<^verbatim>\<open>OK\<close> and the file \<^verbatim>\<open>/outside.txt\<close> is written, although the resolution with
  the flag off rejects that path.
\<close>

theorem runAgent_ignores_allowOutsideRoot:
  "fst (runAgent example_host (example_services [Write_file ''../outside.txt'' ''x'' None])
          (example_options\<lparr>opt_autoApprove := Some True,
             opt_config := example_config\<lparr>cfg_allowOutsideRoot := flag\<rparr>\<rparr>)
          example_world) = None
   \<and> executionLog (snd (runAgent example_host
          (example_services [Write_file ''../outside.txt'' ''x'' None])
          (example_options\<lparr>opt_autoApprove := Some True,
             opt_config := example_config\<lparr>cfg_allowOutsideRoot := flag\<rparr>\<rparr>)
          example_world))
     = [''OK write_file: ../outside.txt'' @ newline @ ''Wrote ../outside.txt'']
   \<and> files (rs_world (snd (runAgent example_host
          (example_services [Write_file ''../outside.txt'' ''x'' None])
          (example_options\<lparr>opt_autoApprove := Some True,
             opt_config := example_config\<lparr>cfg_allowOutsideRoot := flag\<rparr>\<rparr>)
          example_world))) [''outside.txt'']
     = Some (File ''x'')
   \<and> files example_world [''outside.txt''] = None
   \<and> resolveWithinRoot example_host ''/w'' ''../outside.txt'' False
     = Inl (PathEscapesRoot ''../outside.txt'')"
proof -
  have cfg: "resolveModel (example_config\<lparr>cfg_allowOutsideRoot := flag\<rparr>) = ''gpt-4.1''"
    "cfg_pricing (example_config\<lparr>cfg_allowOutsideRoot := flag\<rparr>) = None"
    "createClient (example_config\<lparr>cfg_allowOutsideRoot := flag\<rparr>) = Inr ()"
    by (simp_all add: resolveModel_def example_config_def createClient_def)
  have esc: "resolveWithinRoot example_host ''/w'' ''../outside.txt'' False
     = Inl (PathEscapesRoot ''../outside.txt'')"
    by (simp add: resolveWithinRoot_def example_host_def path_resolve_def expandHome_def
        render_def sep_def)
  have before: "files example_world [''outside.txt''] = None"
    by (simp add: example_world_def example_files_def)
  show ?thesis
    by (simp add: esc before runAgent_def summarize_def example_options_def cfg example_chat_plan
      example_chat_followup example_parse plan_usage followup_usage initialState_def
      recordUsage_def finishRun_def addUsage_def emit_def runAction_def Let_def example_describe
      example_write_outside trim_def is_space_def)
qed


end
